theory Spec2Isabelle
  imports Complex_Main "HOL-Library.AList"
begin

section \<open>Values read from the annotations file\<close>

text \<open>
  A record of the annotations file is whatever \<^verbatim>\<open>json.load\<close> returns: \<^verbatim>\<open>None\<close>, a bool, an
  int, a float, a str, a list or a dict. A dict keeps its keys in insertion order, so it is an
  association list (looked up with \<open>map_of\<close>). A finite float is the rational it denotes;
  \<open>JNonFinite\<close> stands for \<^verbatim>\<open>nan\<close> and the infinities. Text is modelled for ASCII strings,
  where \<^verbatim>\<open>str.isdigit\<close>, \<^verbatim>\<open>\d\<close> and \<^verbatim>\<open>int\<close> read the digits \<^verbatim>\<open>0\<close> to \<^verbatim>\<open>9\<close> only; a statement
  that depends on how text is read says so with the hypothesis \<open>ascii\<close>.
\<close>

datatype json =
    JNull
  | JBool bool
  | JInt int
  | JFloat rat
  | JNonFinite
  | JStr string
  | JList "json list"
  | JObj "(string \<times> json) list"

text \<open>Truth value of a Python object, as \<^verbatim>\<open>if v:\<close> and \<^verbatim>\<open>v or []\<close> test it.\<close>

fun py_truthy :: "json \<Rightarrow> bool" where
  "py_truthy JNull = False"
| "py_truthy (JBool b) = b"
| "py_truthy (JInt n) = (n \<noteq> 0)"
| "py_truthy (JFloat q) = (q \<noteq> 0)"
| "py_truthy JNonFinite = True"
| "py_truthy (JStr s) = (s \<noteq> [])"
| "py_truthy (JList xs) = (xs \<noteq> [])"
| "py_truthy (JObj d) = (d \<noteq> [])"

definition is_digit :: "char \<Rightarrow> bool" where
  "is_digit c = (c \<in> set ''0123456789'')"

text \<open>The value of a digit is its position in \<^verbatim>\<open>0123456789\<close>.\<close>

definition digit_val :: "char \<Rightarrow> int" where
  "digit_val c = int (length (takeWhile (\<lambda>d. d \<noteq> c) ''0123456789''))"

text \<open>The decimal value of a string of digits, most significant digit first.\<close>

definition int_of_digits :: "string \<Rightarrow> int" where
  "int_of_digits s = foldl (\<lambda>n c. 10 * n + digit_val c) 0 s"

text \<open>
  The blanks \<^verbatim>\<open>int\<close> skips around the digits of an ASCII str: space, tab, line feed,
  vertical tab, form feed and carriage return.
\<close>

definition is_space :: "char \<Rightarrow> bool" where
  "is_space c = (c \<in> set [CHR '' '', CHR 0x09, CHR 0x0A, CHR 0x0B, CHR 0x0C, CHR 0x0D])"

definition strip :: "string \<Rightarrow> string" where
  "strip s = rev (dropWhile is_space (rev (dropWhile is_space s)))"

text \<open>
  The digits of an integer literal: a digit first and last, and single underscores allowed
  between digits. \<open>None\<close> when the text is not of that form.
\<close>

fun literal_digits :: "string \<Rightarrow> string option" where
  "literal_digits [] = None"
| "literal_digits [c] = (if is_digit c then Some [c] else None)"
| "literal_digits (c # d # r) =
     (if is_digit c
      then map_option (Cons c) (if d = CHR ''_'' then literal_digits r else literal_digits (d # r))
      else None)"

text \<open>
  \<^verbatim>\<open>int\<close> refuses a literal of more than 4300 digits (the default of
  \<^verbatim>\<open>sys.set_int_max_str_digits\<close>); the sign and the underscores are not counted.
\<close>

definition MAX_STR_DIGITS :: nat where
  "MAX_STR_DIGITS = 4300"

definition int_of_literal :: "string \<Rightarrow> int option" where
  "int_of_literal body =
     (case literal_digits body of
        None \<Rightarrow> None
      | Some ds \<Rightarrow> if length ds > MAX_STR_DIGITS then None else Some (int_of_digits ds))"

text \<open>\<^verbatim>\<open>int(s)\<close> for a str: \<open>None\<close> is the \<^verbatim>\<open>ValueError\<close>.\<close>

definition int_of_str :: "string \<Rightarrow> int option" where
  "int_of_str s =
     (case strip s of
        [] \<Rightarrow> None
      | c # r \<Rightarrow>
          if c = CHR ''-'' then map_option uminus (int_of_literal r)
          else if c = CHR ''+'' then int_of_literal r
          else int_of_literal (c # r))"

text \<open>
  \<^verbatim>\<open>int(v)\<close>: \<open>None\<close> is the exception (\<^verbatim>\<open>TypeError\<close> for \<^verbatim>\<open>None\<close>, a list or a dict,
  \<^verbatim>\<open>ValueError\<close> or \<^verbatim>\<open>OverflowError\<close> otherwise). A float is truncated towards zero.
\<close>

fun py_int :: "json \<Rightarrow> int option" where
  "py_int (JInt n) = Some n"
| "py_int (JBool b) = Some (if b then 1 else 0)"
| "py_int (JFloat q) = Some (if 0 \<le> q then \<lfloor>q\<rfloor> else \<lceil>q\<rceil>)"
| "py_int (JStr s) = int_of_str s"
| "py_int JNonFinite = None"
| "py_int JNull = None"
| "py_int (JList xs) = None"
| "py_int (JObj d) = None"

text \<open>
  Iterating a value (\<^verbatim>\<open>for e in v\<close>, \<^verbatim>\<open>x, y = v\<close>): a list gives its elements, a str its
  characters, a dict its keys; anything else is not iterable (\<open>None\<close>, a \<^verbatim>\<open>TypeError\<close>).
\<close>

fun py_iter :: "json \<Rightarrow> json list option" where
  "py_iter (JList xs) = Some xs"
| "py_iter (JStr s) = Some (map (\<lambda>c. JStr [c]) s)"
| "py_iter (JObj d) = Some (map (\<lambda>kv. JStr (fst kv)) d)"
| "py_iter v = None"

text \<open>\<^verbatim>\<open>x, y = e\<close>: the value must iterate to exactly two items.\<close>

definition unpack2 :: "json \<Rightarrow> (json \<times> json) option" where
  "unpack2 e = (case py_iter e of Some [x, y] \<Rightarrow> Some (x, y) | _ \<Rightarrow> None)"

text \<open>\<^verbatim>\<open>(int(x), int(y))\<close> for \<^verbatim>\<open>x, y\<close> unpacked from \<open>e\<close>.\<close>

definition int_pair :: "json \<Rightarrow> (int \<times> int) option" where
  "int_pair e =
     (case unpack2 e of
        None \<Rightarrow> None
      | Some (x, y) \<Rightarrow>
          (case py_int x of
             None \<Rightarrow> None
           | Some a \<Rightarrow> (case py_int y of None \<Rightarrow> None | Some b \<Rightarrow> Some (a, b))))"

text \<open>A list comprehension whose body may raise: all results, or \<open>None\<close> at the first raise.\<close>

fun map_all :: "('a \<Rightarrow> 'b option) \<Rightarrow> 'a list \<Rightarrow> 'b list option" where
  "map_all f [] = Some []"
| "map_all f (x # xs) =
     (case f x of
        None \<Rightarrow> None
      | Some y \<Rightarrow> (case map_all f xs of None \<Rightarrow> None | Some ys \<Rightarrow> Some (y # ys)))"

text \<open>\<^verbatim>\<open>[(int(x), int(y)) for x, y in v]\<close> and \<^verbatim>\<open>[int(e) for e in v]\<close>.\<close>

definition int_pairs :: "json \<Rightarrow> (int \<times> int) list option" where
  "int_pairs v = (case py_iter v of None \<Rightarrow> None | Some es \<Rightarrow> map_all int_pair es)"

definition int_list :: "json \<Rightarrow> int list option" where
  "int_list v = (case py_iter v of None \<Rightarrow> None | Some es \<Rightarrow> map_all py_int es)"

text \<open>\<^verbatim>\<open>d.get(k, default)\<close> on a dict.\<close>

definition dict_get :: "('k \<times> 'v) list \<Rightarrow> 'k \<Rightarrow> 'v \<Rightarrow> 'v" where
  "dict_get d k dflt = (case map_of d k of None \<Rightarrow> dflt | Some v \<Rightarrow> v)"

section \<open>Frame ordering (\<^verbatim>\<open>_numeric_key\<close>)\<close>

text \<open>
  A path is the file name of a directory entry. \<^verbatim>\<open>Path.suffix\<close> is the text from the last
  dot on, when that dot is neither the first nor the last character; \<^verbatim>\<open>Path.stem\<close> is the
  name without its suffix.
\<close>

definition rfind_dot :: "string \<Rightarrow> nat option" where
  "rfind_dot name =
     (if CHR ''.'' \<in> set name
      then Some (length name - 1 - length (takeWhile (\<lambda>c. c \<noteq> CHR ''.'') (rev name)))
      else None)"

definition suffix :: "string \<Rightarrow> string" where
  "suffix name =
     (case rfind_dot name of
        None \<Rightarrow> []
      | Some i \<Rightarrow> if 0 < i \<and> i < length name - 1 then drop i name else [])"

definition stem :: "string \<Rightarrow> string" where
  "stem name =
     (case rfind_dot name of
        None \<Rightarrow> name
      | Some i \<Rightarrow> if 0 < i \<and> i < length name - 1 then take i name else name)"

text \<open>\<^verbatim>\<open>s.isdigit()\<close> for an ASCII string: false on the empty string.\<close>

definition isdigit :: "string \<Rightarrow> bool" where
  "isdigit s = (s \<noteq> [] \<and> list_all is_digit s)"



text \<open>
  \<^verbatim>\<open>re.findall(r"\d+", s)\<close>: the maximal runs of digits of \<open>s\<close>, left to right. \<open>cur\<close> is the
  run being read.
\<close>

fun digit_runs :: "string \<Rightarrow> string \<Rightarrow> string list" where
  "digit_runs cur [] = (if cur = [] then [] else [cur])"
| "digit_runs cur (c # cs) =
     (if is_digit c then digit_runs (cur @ [c]) cs
      else (if cur = [] then [] else [cur]) @ digit_runs [] cs)"

definition findall_digits :: "string \<Rightarrow> string list" where
  "findall_digits s = digit_runs [] s"

definition numeric_key :: "string \<Rightarrow> int" where
  "numeric_key p =
     (let s = stem p in
      if isdigit s then int_of_digits s
      else (case findall_digits s of [] \<Rightarrow> 0 | m \<Rightarrow> int_of_digits (last m)))"

definition lower_char :: "char \<Rightarrow> char" where
  "lower_char c =
     (case map_of (zip ''ABCDEFGHIJKLMNOPQRSTUVWXYZ'' ''abcdefghijklmnopqrstuvwxyz'') c of
        None \<Rightarrow> c
      | Some l \<Rightarrow> l)"

definition IMG_EXTS :: "string list" where
  "IMG_EXTS = [''.jpg'', ''.jpeg'', ''.png'', ''.bmp'', ''.tif'', ''.tiff'']"

text \<open>
  The frame list built by \<^verbatim>\<open>AnnotationModel.__init__\<close>: \<open>None\<close> is a frames directory that
  does not exist, \<open>Some names\<close> its listing in the order \<^verbatim>\<open>iterdir\<close> gives. \<^verbatim>\<open>sorted\<close> is
  stable, as \<open>sort_key\<close> is.
\<close>

definition sorted_frames :: "string list option \<Rightarrow> string list" where
  "sorted_frames listing =
     (case listing of
        None \<Rightarrow> []
      | Some names \<Rightarrow>
          sort_key numeric_key (filter (\<lambda>p. map lower_char (suffix p) \<in> set IMG_EXTS) names))"

section \<open>The annotation store (\<^verbatim>\<open>models.py\<close>)\<close>

text \<open>
  \<^verbatim>\<open>class_name\<close> holds whatever the last writer stored: \<^verbatim>\<open>set_class\<close> a str or \<^verbatim>\<open>None\<close>,
  \<^verbatim>\<open>load_records\<close> the record's \<^verbatim>\<open>"class"\<close> entry as it is. \<open>JNull\<close> is \<^verbatim>\<open>None\<close>.
\<close>

record ObjectAnno =
  box :: "(int \<times> int \<times> int \<times> int) option"
  points :: "(int \<times> int) list"
  labels :: "int list"
  polygon :: "(int \<times> int) list option"
  class_name :: json

definition new_object :: ObjectAnno where
  "new_object = \<lparr>box = None, points = [], labels = [], polygon = None, class_name = JNull\<rparr>"

definition obj_add_point :: "ObjectAnno \<Rightarrow> int \<Rightarrow> int \<Rightarrow> int \<Rightarrow> ObjectAnno" where
  "obj_add_point obj x y label =
     obj\<lparr>points := points obj @ [(x, y)], labels := labels obj @ [label]\<rparr>"

text \<open>Index of the first item of \<^verbatim>\<open>zip(points, labels)\<close> equal to \<open>((x, y), label)\<close>.\<close>

fun first_match :: "int \<Rightarrow> int \<Rightarrow> int \<Rightarrow> ((int \<times> int) \<times> int) list \<Rightarrow> nat option" where
  "first_match x y label [] = None"
| "first_match x y label (((px, py), lab) # zs) =
     (if px = x \<and> py = y \<and> lab = label then Some 0
      else map_option Suc (first_match x y label zs))"

text \<open>\<^verbatim>\<open>del xs[i]\<close> for an index in range.\<close>

definition delete_at :: "nat \<Rightarrow> 'a list \<Rightarrow> 'a list" where
  "delete_at i xs = take i xs @ drop (Suc i) xs"

definition obj_remove_point :: "ObjectAnno \<Rightarrow> int \<Rightarrow> int \<Rightarrow> int \<Rightarrow> ObjectAnno \<times> bool" where
  "obj_remove_point obj x y label =
     (case first_match x y label (zip (points obj) (labels obj)) of
        None \<Rightarrow> (obj, False)
      | Some i \<Rightarrow>
          (obj\<lparr>points := delete_at i (points obj), labels := delete_at i (labels obj)\<rparr>, True))"

definition obj_set_box :: "ObjectAnno \<Rightarrow> int \<Rightarrow> int \<Rightarrow> int \<Rightarrow> int \<Rightarrow> ObjectAnno" where
  "obj_set_box obj x y w h = obj\<lparr>box := Some (x, y, w, h)\<rparr>"

text \<open>\<^verbatim>\<open>if polygon:\<close> is false for \<^verbatim>\<open>None\<close> and for the empty list.\<close>

definition obj_set_polygon :: "ObjectAnno \<Rightarrow> (int \<times> int) list option \<Rightarrow> ObjectAnno" where
  "obj_set_polygon obj poly =
     (case poly of
        None \<Rightarrow> obj\<lparr>polygon := None\<rparr>
      | Some vs \<Rightarrow> if vs \<noteq> [] then obj\<lparr>polygon := Some vs\<rparr> else obj\<lparr>polygon := None\<rparr>)"

definition obj_set_class :: "ObjectAnno \<Rightarrow> string option \<Rightarrow> ObjectAnno" where
  "obj_set_class obj name =
     obj\<lparr>class_name := (case name of None \<Rightarrow> JNull | Some s \<Rightarrow> JStr s)\<rparr>"

record FrameAnno =
  objects :: "(int \<times> ObjectAnno) list"

definition new_frame :: FrameAnno where
  "new_frame = \<lparr>objects = []\<rparr>"

text \<open>
  A dict is an association list in insertion order: \<open>AList.update\<close> replaces the value of a
  key in place and appends a new key, as assignment to a dict entry does.
\<close>

definition ensure_object :: "FrameAnno \<Rightarrow> int \<Rightarrow> FrameAnno" where
  "ensure_object fr obj_id =
     (if map_of (objects fr) obj_id = None
      then fr\<lparr>objects := AList.update obj_id new_object (objects fr)\<rparr>
      else fr)"

record AnnotationModel =
  frames :: "string list"
  index :: int
  ann :: "(int \<times> FrameAnno) list"
  dirty :: bool

definition init_model :: "string list option \<Rightarrow> AnnotationModel" where
  "init_model listing = \<lparr>frames = sorted_frames listing, index = 0, ann = [], dirty = False\<rparr>"

definition clamp_index :: "AnnotationModel \<Rightarrow> int \<Rightarrow> int" where
  "clamp_index m i = (if frames m \<noteq> [] then max 0 (min i (int (length (frames m)) - 1)) else 0)"

definition set_index :: "AnnotationModel \<Rightarrow> int \<Rightarrow> AnnotationModel" where
  "set_index m i = m\<lparr>index := clamp_index m i\<rparr>"

text \<open>\<^verbatim>\<open>_frame(fidx)\<close>: the frame entry is created when missing.\<close>

definition ensure_frame :: "AnnotationModel \<Rightarrow> int \<Rightarrow> AnnotationModel" where
  "ensure_frame m idx =
     (if map_of (ann m) idx = None then m\<lparr>ann := AList.update idx new_frame (ann m)\<rparr> else m)"

definition frame_at :: "AnnotationModel \<Rightarrow> int \<Rightarrow> FrameAnno" where
  "frame_at m idx = dict_get (ann m) idx new_frame"

definition object_at :: "FrameAnno \<Rightarrow> int \<Rightarrow> ObjectAnno" where
  "object_at fr obj_id = dict_get (objects fr) obj_id new_object"

text \<open>
  \<^verbatim>\<open>obj = self._frame(idx).ensure_object(obj_id)\<close> followed by a mutation \<open>g\<close> of \<open>obj\<close>: the
  frame and the object are created when missing, and the object is changed where it is.
\<close>

definition modify_object ::
  "AnnotationModel \<Rightarrow> int \<Rightarrow> int \<Rightarrow> (ObjectAnno \<Rightarrow> ObjectAnno) \<Rightarrow> AnnotationModel" where
  "modify_object m idx obj_id g =
     (let m1 = ensure_frame m idx;
          fr = ensure_object (frame_at m1 idx) obj_id;
          fr' = fr\<lparr>objects := AList.update obj_id (g (object_at fr obj_id)) (objects fr)\<rparr>
      in m1\<lparr>ann := AList.update idx fr' (ann m1)\<rparr>)"

definition add_point :: "AnnotationModel \<Rightarrow> int \<Rightarrow> int \<Rightarrow> int \<Rightarrow> int \<Rightarrow> AnnotationModel" where
  "add_point m obj_id x y label =
     (modify_object m (index m) obj_id (\<lambda>obj. obj_add_point obj x y label))\<lparr>dirty := True\<rparr>"

definition remove_point ::
  "AnnotationModel \<Rightarrow> int \<Rightarrow> int \<Rightarrow> int \<Rightarrow> int \<Rightarrow> AnnotationModel \<times> bool" where
  "remove_point m obj_id x y label =
     (let m1 = modify_object m (index m) obj_id (\<lambda>obj. fst (obj_remove_point obj x y label));
          obj = object_at (frame_at m (index m)) obj_id;
          removed = snd (obj_remove_point obj x y label)
      in (if removed then m1\<lparr>dirty := True\<rparr> else m1, removed))"

definition set_box :: "AnnotationModel \<Rightarrow> int \<Rightarrow> int \<Rightarrow> int \<Rightarrow> int \<Rightarrow> int \<Rightarrow> AnnotationModel" where
  "set_box m obj_id x y w h =
     (modify_object m (index m) obj_id (\<lambda>obj. obj_set_box obj x y w h))\<lparr>dirty := True\<rparr>"

definition set_polygon ::
  "AnnotationModel \<Rightarrow> int \<Rightarrow> (int \<times> int) list option \<Rightarrow> AnnotationModel" where
  "set_polygon m obj_id poly =
     (modify_object m (index m) obj_id (\<lambda>obj. obj_set_polygon obj poly))\<lparr>dirty := True\<rparr>"

definition set_class :: "AnnotationModel \<Rightarrow> int \<Rightarrow> string option \<Rightarrow> AnnotationModel" where
  "set_class m obj_id name =
     (modify_object m (index m) obj_id (\<lambda>obj. obj_set_class obj name))\<lparr>dirty := True\<rparr>"

definition clear_object :: "AnnotationModel \<Rightarrow> int \<Rightarrow> AnnotationModel" where
  "clear_object m obj_id =
     (case map_of (ann m) (index m) of
        None \<Rightarrow> m
      | Some fr \<Rightarrow>
          if map_of (objects fr) obj_id \<noteq> None
          then m\<lparr>ann := AList.update (index m)
                          (fr\<lparr>objects := AList.update obj_id new_object (objects fr)\<rparr>) (ann m),
                 dirty := True\<rparr>
          else m)"

definition get_object :: "AnnotationModel \<Rightarrow> int \<Rightarrow> int \<Rightarrow> ObjectAnno option" where
  "get_object m fidx obj_id =
     (case map_of (ann m) fidx of None \<Rightarrow> None | Some fr \<Rightarrow> map_of (objects fr) obj_id)"

text \<open>The object a mutation of \<open>(fidx, obj_id)\<close> starts from: the stored one, or a new one.\<close>

definition current_object :: "AnnotationModel \<Rightarrow> int \<Rightarrow> int \<Rightarrow> ObjectAnno" where
  "current_object m fidx obj_id =
     (case get_object m fidx obj_id of None \<Rightarrow> new_object | Some obj \<Rightarrow> obj)"

text \<open>
  The three tests shared by \<^verbatim>\<open>is_frame_annotated\<close> and \<^verbatim>\<open>to_records\<close>. A box is always a
  4-tuple and a polygon always a list, so the \<^verbatim>\<open>isinstance\<close> and \<^verbatim>\<open>len(box) == 4\<close> tests
  come down to the value being present.
\<close>

definition has_box :: "ObjectAnno \<Rightarrow> bool" where
  "has_box obj = (case box obj of None \<Rightarrow> False | Some (x, y, w, h) \<Rightarrow> w > 0 \<and> h > 0)"

definition has_points :: "ObjectAnno \<Rightarrow> bool" where
  "has_points obj = (length (points obj) > 0)"

definition has_poly :: "ObjectAnno \<Rightarrow> bool" where
  "has_poly obj = (case polygon obj of None \<Rightarrow> False | Some vs \<Rightarrow> length vs \<ge> 3)"

definition has_content :: "ObjectAnno \<Rightarrow> bool" where
  "has_content obj = (has_box obj \<or> has_points obj \<or> has_poly obj)"

definition is_frame_annotated :: "AnnotationModel \<Rightarrow> int \<Rightarrow> bool" where
  "is_frame_annotated m fidx =
     (case map_of (ann m) fidx of
        None \<Rightarrow> False
      | Some fr \<Rightarrow> list_ex has_content (map snd (objects fr)))"

subsection \<open>Persistence: \<^verbatim>\<open>to_records\<close> and \<^verbatim>\<open>load_records\<close>\<close>

definition box_entry :: "ObjectAnno \<Rightarrow> (string \<times> json) list" where
  "box_entry obj =
     (case box obj of
        None \<Rightarrow> []
      | Some (x, y, w, h) \<Rightarrow>
          if w > 0 \<and> h > 0 then [(''box'', JList [JInt x, JInt y, JInt w, JInt h])] else [])"

definition polygon_entry :: "ObjectAnno \<Rightarrow> (string \<times> json) list" where
  "polygon_entry obj =
     (case polygon obj of
        None \<Rightarrow> []
      | Some vs \<Rightarrow>
          if length vs \<ge> 3
          then [(''polygon'', JList (map (\<lambda>(x, y). JList [JInt x, JInt y]) vs))]
          else [])"

text \<open>The dict \<^verbatim>\<open>rec\<close> that \<^verbatim>\<open>to_records\<close> builds for one object, keys in insertion order.\<close>

definition to_record :: "string \<Rightarrow> int \<Rightarrow> int \<Rightarrow> ObjectAnno \<Rightarrow> json" where
  "to_record video_id fidx oid obj =
     JObj ([(''video_id'', JStr video_id),
            (''frame_idx'', JInt fidx),
            (''obj_id'', JInt oid),
            (''points'', JList (map (\<lambda>(x, y). JList [JInt x, JInt y]) (points obj))),
            (''labels'', JList (map JInt (labels obj)))]
           @ (if py_truthy (class_name obj) then [(''class'', class_name obj)] else [])
           @ box_entry obj
           @ polygon_entry obj)"

definition frame_records :: "string \<Rightarrow> int \<Rightarrow> FrameAnno \<Rightarrow> json list" where
  "frame_records video_id fidx fr =
     concat (map (\<lambda>oid. let obj = object_at fr oid in
                         if \<not> has_content obj then [] else [to_record video_id fidx oid obj])
                 (sort (map fst (objects fr))))"

definition to_records :: "AnnotationModel \<Rightarrow> string \<Rightarrow> json list" where
  "to_records m video_id =
     concat (map (\<lambda>fidx. frame_records video_id fidx (frame_at m fidx)) (sort (map fst (ann m))))"

text \<open>
  The body of a \<^verbatim>\<open>try\<close> block changes the state as it runs, and an exception leaves the
  changes made so far: both outcomes carry the state at the end of the block.
\<close>

datatype 'a attempt = Completed 'a | Raised 'a

fun state_of :: "'a attempt \<Rightarrow> 'a" where
  "state_of (Completed s) = s"
| "state_of (Raised s) = s"

fun raised :: "'a attempt \<Rightarrow> bool" where
  "raised (Completed s) = False"
| "raised (Raised s) = True"

text \<open>\<^verbatim>\<open>rec.get(key, default) or []\<close>.\<close>

definition get_or_empty :: "(string \<times> json) list \<Rightarrow> string \<Rightarrow> json" where
  "get_or_empty d key = (let v = dict_get d key (JList []) in if py_truthy v then v else JList [])"

text \<open>The two guarded assignments of \<^verbatim>\<open>load_records\<close>; \<open>None\<close> is an exception of \<^verbatim>\<open>int\<close>.\<close>

definition load_box :: "json \<Rightarrow> ObjectAnno \<Rightarrow> ObjectAnno option" where
  "load_box b obj =
     (case b of
        JList vs \<Rightarrow>
          if length vs = 4
          then (case map_all py_int vs of
                  Some [x, y, w, h] \<Rightarrow> Some (obj\<lparr>box := Some (x, y, w, h)\<rparr>)
                | _ \<Rightarrow> None)
          else Some obj
      | _ \<Rightarrow> Some obj)"

definition load_polygon :: "json \<Rightarrow> ObjectAnno \<Rightarrow> ObjectAnno option" where
  "load_polygon p obj =
     (case p of
        JList vs \<Rightarrow>
          if length vs \<ge> 3
          then (case map_all int_pair vs of
                  Some poly \<Rightarrow> Some (obj\<lparr>polygon := Some poly\<rparr>)
                | None \<Rightarrow> None)
          else Some obj
      | _ \<Rightarrow> Some obj)"

text \<open>
  The part of the \<^verbatim>\<open>try\<close> block of \<^verbatim>\<open>load_records\<close> after \<^verbatim>\<open>obj\<close> is found: the
  assignments to \<^verbatim>\<open>obj\<close>, in the order of the source.
\<close>

definition load_fields :: "(string \<times> json) list \<Rightarrow> ObjectAnno \<Rightarrow> ObjectAnno attempt" where
  "load_fields d obj =
     (case int_pairs (get_or_empty d ''points'') of
        None \<Rightarrow> Raised obj
      | Some pts \<Rightarrow>
          let obj1 = obj\<lparr>points := pts\<rparr> in
          (case int_list (get_or_empty d ''labels'') of
             None \<Rightarrow> Raised obj1
           | Some labs \<Rightarrow>
               let obj2 = obj1\<lparr>labels := labs\<rparr> in
               (case load_box (dict_get d ''box'' JNull) obj2 of
                  None \<Rightarrow> Raised obj2
                | Some obj3 \<Rightarrow>
                    (case load_polygon (dict_get d ''polygon'' JNull) obj3 of
                       None \<Rightarrow> Raised obj3
                     | Some obj4 \<Rightarrow>
                         Completed (obj4\<lparr>class_name := dict_get d ''class'' JNull\<rparr>)))))"

text \<open>
  The frame and object a record addresses: \<open>None\<close> when the record is not a dict (it has no
  \<^verbatim>\<open>get\<close>) or \<^verbatim>\<open>int\<close> raises on \<^verbatim>\<open>frame_idx\<close> or \<^verbatim>\<open>obj_id\<close>.
\<close>

definition record_target :: "json \<Rightarrow> (int \<times> int) option" where
  "record_target r =
     (case r of
        JObj d \<Rightarrow>
          (case py_int (dict_get d ''frame_idx'' (JInt 0)) of
             None \<Rightarrow> None
           | Some fidx \<Rightarrow>
               (case py_int (dict_get d ''obj_id'' (JInt 1)) of
                  None \<Rightarrow> None
                | Some oid \<Rightarrow> Some (fidx, oid)))
      | _ \<Rightarrow> None)"

text \<open>The \<^verbatim>\<open>try\<close> block of \<^verbatim>\<open>load_records\<close> for one record.\<close>

definition try_record :: "AnnotationModel \<Rightarrow> json \<Rightarrow> AnnotationModel attempt" where
  "try_record m r =
     (case r of
        JObj d \<Rightarrow>
          (case record_target r of
             None \<Rightarrow> Raised m
           | Some (fidx, oid) \<Rightarrow>
               let m' = modify_object m fidx oid (\<lambda>obj. state_of (load_fields d obj)) in
               if raised (load_fields d (object_at (frame_at m fidx) oid))
               then Raised m' else Completed m')
      | _ \<Rightarrow> Raised m)"

text \<open>\<^verbatim>\<open>except Exception: continue\<close>: the loop goes on from the state the block left.\<close>

definition load_record :: "AnnotationModel \<Rightarrow> json \<Rightarrow> AnnotationModel" where
  "load_record m r = state_of (try_record m r)"

definition load_records :: "AnnotationModel \<Rightarrow> json list \<Rightarrow> AnnotationModel" where
  "load_records m records = foldl load_record m records"

definition ANNOT_SCHEMA_VERSION :: int where
  "ANNOT_SCHEMA_VERSION = 1"

datatype error = OSError | IndexError | PredictError

text \<open>
  \<^verbatim>\<open>save_annotations\<close>: the loop over \<^verbatim>\<open>models.items()\<close> collects the records and clears each
  flag; the file is written after the loop. \<open>io_ok\<close> tells whether \<^verbatim>\<open>mkdir\<close>, \<^verbatim>\<open>open\<close> and
  \<^verbatim>\<open>json.dump\<close> succeed. The result is the stores as the call leaves them, and the payload
  written or the exception raised.
\<close>

definition save_annotations ::
  "bool \<Rightarrow> (string \<times> AnnotationModel) list \<Rightarrow> (string \<times> AnnotationModel) list \<times> (error + json)" where
  "save_annotations io_ok models =
     (let all_records = concat (map (\<lambda>(vid, model). to_records model vid) models);
          models' = map (\<lambda>(vid, model). (vid, model\<lparr>dirty := False\<rparr>)) models;
          payload = JObj [(''schema_version'', JInt ANNOT_SCHEMA_VERSION),
                          (''annotations'', JList all_records)]
      in (models', if io_ok then Inr payload else Inl OSError))"

section \<open>The segmentation workflow (\<^verbatim>\<open>run_sam2\<close>, \<^verbatim>\<open>Sam2Service\<close>)\<close>

text \<open>
  What the workflow takes from outside the repository: whether the service object exists,
  whether it reports itself available and holds a predictor, whether OpenCV was imported,
  and the library calls themselves. \<^verbatim>\<open>imread\<close> gives \<open>None\<close> for a file it cannot read
  (the colour conversion is part of it); \<^verbatim>\<open>predict\<close> gives the first mask, or \<open>None\<close> when
  the predictor raises; a contour is its list of vertices.
\<close>

type_synonym image = "nat list list"
type_synonym mask = "bool list list"
type_synonym contour = "(int \<times> int) list"

record externals =
  sam2_created :: bool
  sam2_available :: bool
  has_predictor :: bool
  has_cv2 :: bool
  imread :: "string \<Rightarrow> image option"
  predict :: "image \<Rightarrow> (int \<times> int) list option \<Rightarrow> int list option
              \<Rightarrow> (int \<times> int \<times> int \<times> int) option \<Rightarrow> mask option"
  findContours :: "mask \<Rightarrow> contour list"
  contourArea :: "contour \<Rightarrow> rat"

text \<open>\<^verbatim>\<open>max(xs, key=f)\<close> on a non-empty list: the first item of greatest key.\<close>

fun py_max :: "('a \<Rightarrow> 'b::linorder) \<Rightarrow> 'a \<Rightarrow> 'a list \<Rightarrow> 'a" where
  "py_max f best [] = best"
| "py_max f best (x # xs) = py_max f (if f best < f x then x else best) xs"

text \<open>
  \<^verbatim>\<open>_mask_to_polygon\<close>. The contour array has shape (N, 1, 2), so after \<^verbatim>\<open>squeeze(axis=1)\<close>
  the test on \<^verbatim>\<open>ndim\<close> and \<^verbatim>\<open>shape\<close> passes and the vertices are returned as they are.
\<close>

definition mask_to_polygon :: "externals \<Rightarrow> mask \<Rightarrow> contour" where
  "mask_to_polygon ext msk =
     (if \<not> has_cv2 ext then []
      else (case findContours ext msk of
              [] \<Rightarrow> []
            | c # cs \<Rightarrow> py_max (contourArea ext) c cs))"

text \<open>\<^verbatim>\<open>generate_polygon\<close>; \<open>Inl\<close> is an exception of the predictor.\<close>

definition generate_polygon ::
  "externals \<Rightarrow> image \<Rightarrow> (int \<times> int) list option \<Rightarrow> int list option
   \<Rightarrow> (int \<times> int \<times> int \<times> int) option \<Rightarrow> error + contour" where
  "generate_polygon ext image_rgb points_xy point_labels box_xywh =
     (if \<not> sam2_available ext \<or> \<not> has_predictor ext then Inr []
      else
        let pts = (case points_xy of None \<Rightarrow> [] | Some p \<Rightarrow> p);
            labs = (case point_labels of None \<Rightarrow> [] | Some l \<Rightarrow> l);
            box_xyxy = (case box_xywh of
                          None \<Rightarrow> None
                        | Some (x, y, w, h) \<Rightarrow>
                            if w > 0 \<and> h > 0 then Some (x, y, x + w, y + h) else None);
            point_coords = (if pts \<noteq> [] then Some pts else None);
            point_labs = (if labs \<noteq> [] then Some labs else None)
        in (case predict ext image_rgb point_coords point_labs box_xyxy of
              None \<Rightarrow> Inl PredictError
            | Some msk \<Rightarrow> Inr (mask_to_polygon ext msk)))"

text \<open>\<^verbatim>\<open>xs[i]\<close>: a negative index counts from the end; \<open>None\<close> is the \<^verbatim>\<open>IndexError\<close>.\<close>

definition py_index :: "'a list \<Rightarrow> int \<Rightarrow> 'a option" where
  "py_index xs i =
     (if 0 \<le> i \<and> i < int (length xs) then Some (xs ! nat i)
      else if - int (length xs) \<le> i \<and> i < 0 then Some (xs ! nat (int (length xs) + i))
      else None)"

text \<open>
  The part of the main window the workflow reads and writes: the stores by video id, the
  selected video and the object id of the spin box. Drawing, the status bar and the autosave
  timer are left out.
\<close>

record MainWindow =
  models :: "(string \<times> AnnotationModel) list"
  current_video_id :: "string option"
  obj_spin :: int

definition current_model :: "MainWindow \<Rightarrow> AnnotationModel option" where
  "current_model win =
     (case current_video_id win of
        None \<Rightarrow> None
      | Some vid \<Rightarrow> if vid = [] then None else map_of (models win) vid)"

text \<open>
  \<^verbatim>\<open>run_sam2\<close>. Every \<^verbatim>\<open>return\<close> before the call of \<^verbatim>\<open>set_polygon\<close> leaves the window as it
  was, and so does an exception (\<open>Inl\<close>), since nothing is written before it.
\<close>

definition run_sam2 :: "externals \<Rightarrow> MainWindow \<Rightarrow> error + MainWindow" where
  "run_sam2 ext win =
     (case current_model win of
        None \<Rightarrow> Inr win
      | Some model \<Rightarrow>
          if \<not> sam2_created ext then Inr win
          else if \<not> sam2_available ext then Inr win
          else if \<not> has_cv2 ext then Inr win
          else
            let fidx = index model; oid = obj_spin win in
            (case get_object model fidx oid of
               None \<Rightarrow> Inr win
             | Some obj \<Rightarrow>
                 if points obj = [] \<and> \<not> has_box obj then Inr win
                 else
                   (case py_index (frames model) fidx of
                      None \<Rightarrow> Inl IndexError
                    | Some img_path \<Rightarrow>
                        (case imread ext img_path of
                           None \<Rightarrow> Inr win
                         | Some img \<Rightarrow>
                             (case generate_polygon ext img (Some (points obj))
                                     (Some (labels obj)) (box obj) of
                                Inl e \<Rightarrow> Inl e
                              | Inr poly \<Rightarrow>
                                  if poly = [] then Inr win
                                  else Inr (win\<lparr>models :=
                                         AList.update (the (current_video_id win))
                                           (set_polygon model oid (Some poly)) (models win)\<rparr>))))))"

section \<open>The user operations on a store\<close>

datatype mutation =
    AddPoint int int int int
  | RemovePoint int int int int
  | SetBox int int int int int
  | SetPolygon int "(int \<times> int) list option"
  | SetClass int "string option"
  | ClearObject int
  | SetIndex int

fun apply_mutation :: "AnnotationModel \<Rightarrow> mutation \<Rightarrow> AnnotationModel" where
  "apply_mutation m (AddPoint oid x y label) = add_point m oid x y label"
| "apply_mutation m (RemovePoint oid x y label) = fst (remove_point m oid x y label)"
| "apply_mutation m (SetBox oid x y w h) = set_box m oid x y w h"
| "apply_mutation m (SetPolygon oid poly) = set_polygon m oid poly"
| "apply_mutation m (SetClass oid name) = set_class m oid name"
| "apply_mutation m (ClearObject oid) = clear_object m oid"
| "apply_mutation m (SetIndex i) = set_index m i"

text \<open>A Python dict has each key once.\<close>

definition unique_keys :: "AnnotationModel \<Rightarrow> bool" where
  "unique_keys m =
     (distinct (map fst (ann m)) \<and> list_all (\<lambda>e. distinct (map fst (objects (snd e)))) (ann m))"

text \<open>The points and the labels of every object of the store have the same length.\<close>

definition lengths_agree :: "AnnotationModel \<Rightarrow> bool" where
  "lengths_agree m =
     list_all (\<lambda>e. list_all (\<lambda>oe. length (points (snd oe)) = length (labels (snd oe)))
                             (objects (snd e)))
              (ann m)"

text \<open>Item \<open>i\<close> of \<^verbatim>\<open>zip(points, labels)\<close> is the point \<open>(x, y)\<close> with that label.\<close>

definition matches :: "ObjectAnno \<Rightarrow> int \<Rightarrow> int \<Rightarrow> int \<Rightarrow> nat \<Rightarrow> bool" where
  "matches obj x y label i =
     (i < length (points obj) \<and> i < length (labels obj) \<and>
      points obj ! i = (x, y) \<and> labels obj ! i = label)"

definition len_ok :: "ObjectAnno \<Rightarrow> bool" where
  "len_ok obj = (length (points obj) = length (labels obj))"

text \<open>
  A record that cannot leave an object with points and labels of different lengths: when its
  points convert, its labels convert too, to as many items.
\<close>

definition balanced_record :: "json \<Rightarrow> bool" where
  "balanced_record r =
     (case r of
        JObj d \<Rightarrow>
          (case int_pairs (get_or_empty d ''points'') of
             None \<Rightarrow> True
           | Some pts \<Rightarrow>
               (case int_list (get_or_empty d ''labels'') of
                  None \<Rightarrow> False
                | Some labs \<Rightarrow> length pts = length labs))
      | _ \<Rightarrow> True)"

text \<open>
  The objects \<^verbatim>\<open>to_records\<close> emits: per frame the ids of the objects with content, in
  ascending order, and all of them by ascending frame.
\<close>

definition object_keys :: "AnnotationModel \<Rightarrow> int \<Rightarrow> int list" where
  "object_keys m f =
     filter (\<lambda>k. has_content (object_at (frame_at m f) k)) (sort (map fst (objects (frame_at m f))))"

definition entry_keys :: "AnnotationModel \<Rightarrow> (int \<times> int) list" where
  "entry_keys m = concat (map (\<lambda>f. map (Pair f) (object_keys m f)) (sort (map fst (ann m))))"

text \<open>The dict of a record, and what loading it into the object \<open>old\<close> gives.\<close>

definition record_fields :: "string \<Rightarrow> int \<Rightarrow> int \<Rightarrow> ObjectAnno \<Rightarrow> (string \<times> json) list" where
  "record_fields vid f k obj = (case to_record vid f k obj of JObj d \<Rightarrow> d | _ \<Rightarrow> [])"

definition reloaded :: "ObjectAnno \<Rightarrow> ObjectAnno \<Rightarrow> ObjectAnno" where
  "reloaded old obj =
     \<lparr>box = (if has_box obj then box obj else box old),
      points = points obj,
      labels = labels obj,
      polygon = (if has_poly obj then polygon obj else polygon old),
      class_name = (if py_truthy (class_name obj) then class_name obj else JNull)\<rparr>"

text \<open>What a save and a reload keep of an object that has content.\<close>

definition persisted :: "ObjectAnno \<Rightarrow> ObjectAnno" where
  "persisted obj =
     \<lparr>box = (if has_box obj then box obj else None),
      points = points obj,
      labels = labels obj,
      polygon = (if has_poly obj then polygon obj else None),
      class_name = (if py_truthy (class_name obj) then class_name obj else JNull)\<rparr>"

section \<open>Example inputs\<close>

text \<open>
  A service that is available, an image that loads, and a mask whose only contour has two
  vertices (a foreground strip one pixel high).
\<close>

definition example_externals :: externals where
  "example_externals =
     \<lparr>sam2_created = True, sam2_available = True, has_predictor = True, has_cv2 = True,
      imread = (\<lambda>p. Some [[0, 0], [0, 0]]),
      predict = (\<lambda>img pts labs bx. Some [[False, False], [True, True]]),
      findContours = (\<lambda>msk. [[(0, 1), (1, 1)]]),
      contourArea = (\<lambda>c. 0)\<rparr>"

definition example_window :: "AnnotationModel \<Rightarrow> MainWindow" where
  "example_window m = \<lparr>models = [(''v'', m)], current_video_id = Some ''v'', obj_spin = 1\<rparr>"

definition triangle :: "(int \<times> int) list" where
  "triangle = [(0, 0), (4, 0), (4, 4)]"

text \<open>
  Records of the annotations file: a full one, one with points and labels only, one whose
  labels do not convert, and one without labels.
\<close>

definition rec_full :: json where
  "rec_full = JObj [(''video_id'', JStr ''v''), (''frame_idx'', JInt 0), (''obj_id'', JInt 1),
                    (''points'', JList [JList [JInt 1, JInt 2]]), (''labels'', JList [JInt 1]),
                    (''class'', JStr ''cat''),
                    (''box'', JList [JInt 0, JInt 0, JInt 5, JInt 5]),
                    (''polygon'', JList [JList [JInt 0, JInt 0], JList [JInt 4, JInt 0],
                                         JList [JInt 4, JInt 4]])]"

definition rec_points_only :: json where
  "rec_points_only = JObj [(''video_id'', JStr ''v''), (''frame_idx'', JInt 0), (''obj_id'', JInt 1),
                           (''points'', JList [JList [JInt 3, JInt 4]]), (''labels'', JList [JInt 0])]"

definition rec_bad_labels :: json where
  "rec_bad_labels = JObj [(''video_id'', JStr ''v''), (''frame_idx'', JInt 0), (''obj_id'', JInt 1),
                          (''points'', JList [JList [JInt 7, JInt 8], JList [JInt 9, JInt 9]]),
                          (''labels'', JList [JStr ''x''])]"

definition rec_no_labels :: json where
  "rec_no_labels = JObj [(''video_id'', JStr ''v''), (''frame_idx'', JInt 0), (''obj_id'', JInt 1),
                         (''points'', JList [JList [JInt 1, JInt 2]])]"

text \<open>A store whose object 1 has the point \<open>(5, 5)\<close> with label 1 twice.\<close>

definition three_points :: AnnotationModel where
  "three_points =
     add_point (add_point (add_point (init_model None) 1 5 5 1) 1 7 7 0) 1 5 5 1"

text \<open>The listing of a frames directory with five frames.\<close>

definition five_frames :: "string list option" where
  "five_frames = Some [''3.jpg'', ''0.jpg'', ''4.jpg'', ''1.jpg'', ''2.jpg'']"

section \<open>Dicts as association lists\<close>


lemma list_ex_values_iff:
  "distinct (map fst al) \<Longrightarrow> list_ex P (map snd al) \<longleftrightarrow> (\<exists>k v. map_of al k = Some v \<and> P v)"
  by (auto simp: list_ex_iff) (metis map_of_SomeD snd_conv)+

lemma unique_keys_frame:
  "unique_keys m \<Longrightarrow> map_of (ann m) f = Some fr \<Longrightarrow> distinct (map fst (objects fr))"
  by (auto simp: unique_keys_def list_all_iff dest!: map_of_SomeD)

lemma is_frame_annotated_iff:
  assumes "unique_keys m"
  shows "is_frame_annotated m f \<longleftrightarrow> (\<exists>oid obj. get_object m f oid = Some obj \<and> has_content obj)"
proof (cases "map_of (ann m) f")
  case None
  then show ?thesis by (simp add: is_frame_annotated_def get_object_def)
next
  case (Some fr)
  with assms have "distinct (map fst (objects fr))" using unique_keys_frame by blast
  then show ?thesis using Some
    by (simp add: is_frame_annotated_def get_object_def list_ex_values_iff)
qed

lemma set_update_subset: "set (AList.update k v al) \<subseteq> insert (k, v) (set al)"
  by (induction al) auto

lemma object_at_ensured:
  "object_at (ensure_object (frame_at (ensure_frame m idx) idx) oid) oid = object_at (frame_at m idx) oid"
  by (auto simp: object_at_def ensure_object_def frame_at_def ensure_frame_def dict_get_def
      update_conv' new_frame_def split: option.splits)

lemma object_at_frame_at: "object_at (frame_at m idx) oid = current_object m idx oid"
  by (auto simp: object_at_def frame_at_def dict_get_def current_object_def get_object_def new_frame_def
      split: option.splits)

lemma get_object_modify_object:
  "get_object (modify_object m idx oid g) f k =
     (if f = idx \<and> k = oid then Some (g (current_object m idx oid)) else get_object m f k)"
  unfolding modify_object_def Let_def object_at_ensured object_at_frame_at
  by (auto simp: get_object_def update_conv' ensure_frame_def ensure_object_def frame_at_def
      dict_get_def new_frame_def split: option.splits)

lemma distinct_ensure_object:
  "distinct (map fst (objects fr)) \<Longrightarrow> distinct (map fst (objects (ensure_object fr oid)))"
  by (simp add: ensure_object_def distinct_update)

lemma unique_keys_update:
  "unique_keys m \<Longrightarrow> distinct (map fst (objects fr)) \<Longrightarrow>
   unique_keys (m\<lparr>ann := AList.update idx fr (ann m)\<rparr>)"
  using set_update_subset[of idx fr "ann m"]
  by (auto simp: unique_keys_def distinct_update list_all_iff)

lemma unique_keys_ensure_frame: "unique_keys m \<Longrightarrow> unique_keys (ensure_frame m idx)"
  by (simp add: ensure_frame_def unique_keys_update new_frame_def)

lemma distinct_frame_at: "unique_keys m \<Longrightarrow> distinct (map fst (objects (frame_at m idx)))"
  by (auto simp: frame_at_def dict_get_def new_frame_def split: option.splits dest: unique_keys_frame)

lemma unique_keys_modify_object:
  assumes "unique_keys m" shows "unique_keys (modify_object m idx oid g)"
proof -
  let ?m1 = "ensure_frame m idx"
  have u1: "unique_keys ?m1" using assms by (rule unique_keys_ensure_frame)
  then have "distinct (map fst (objects (ensure_object (frame_at ?m1 idx) oid)))"
    by (intro distinct_ensure_object distinct_frame_at)
  then show ?thesis unfolding modify_object_def Let_def
    by (intro unique_keys_update u1) (simp add: distinct_update)
qed

section \<open>The has-content law\<close>

lemma has_content_iff:
  "has_content obj \<longleftrightarrow>
     (\<exists>x y w h. box obj = Some (x, y, w, h) \<and> w > 0 \<and> h > 0) \<or> points obj \<noteq> [] \<or>
     (\<exists>vs. polygon obj = Some vs \<and> length vs \<ge> 3)"
  by (auto simp: has_content_def has_box_def has_points_def has_poly_def split: option.splits)

lemma dirty_update_simps [simp]:
  "get_object (m\<lparr>dirty := b\<rparr>) = get_object m"
  "unique_keys (m\<lparr>dirty := b\<rparr>) = unique_keys m"
  "is_frame_annotated (m\<lparr>dirty := b\<rparr>) = is_frame_annotated m"
  "lengths_agree (m\<lparr>dirty := b\<rparr>) = lengths_agree m"
  "to_records (m\<lparr>dirty := b\<rparr>) = to_records m"
  "current_object (m\<lparr>dirty := b\<rparr>) = current_object m"
  by (auto simp: get_object_def unique_keys_def is_frame_annotated_def lengths_agree_def
      to_records_def frame_at_def current_object_def fun_eq_iff)

lemma modify_object_fields [simp]:
  "index (modify_object m idx oid g) = index m"
  "frames (modify_object m idx oid g) = frames m"
  "dirty (modify_object m idx oid g) = dirty m"
  by (simp_all add: modify_object_def Let_def ensure_frame_def)

lemma current_object_modify_object:
  "current_object (modify_object m idx oid g) f k =
     (if f = idx \<and> k = oid then g (current_object m idx oid) else current_object m f k)"
  by (simp add: current_object_def get_object_modify_object)

text \<open>
  Claim C3. In a store whose dicts have each key once, \<^verbatim>\<open>is_frame_annotated(f)\<close> is true
  exactly when some object of frame \<open>f\<close> has a box with \<open>w > 0\<close> and \<open>h > 0\<close>, or at least one
  point, or a polygon of at least three vertices. So a frame whose objects carry nothing but
  a class name is not annotated; and after \<^verbatim>\<open>set_box(1, 0, 0, 5, 5)\<close> and
  \<^verbatim>\<open>set_box(1, 0, 0, 0, 0)\<close> the zero-area box is stored and does not count: the frame is
  annotated only through the points or polygon of object 1 or the content of another object.
\<close>

theorem has_content_law:
  assumes "unique_keys m"
  shows "(is_frame_annotated m f \<longleftrightarrow>
            (\<exists>oid obj. get_object m f oid = Some obj \<and>
               ((\<exists>x y w h. box obj = Some (x, y, w, h) \<and> w > 0 \<and> h > 0) \<or> points obj \<noteq> [] \<or>
                (\<exists>vs. polygon obj = Some vs \<and> length vs \<ge> 3)))) \<and>
         ((\<forall>oid obj. get_object m f oid = Some obj \<longrightarrow>
            box obj = None \<and> points obj = [] \<and> polygon obj = None) \<longrightarrow> \<not> is_frame_annotated m f) \<and>
         (let m2 = set_box (set_box m 1 0 0 5 5) 1 0 0 0 0 in
           map_option box (get_object m2 (index m) 1) = Some (Some (0, 0, 0, 0)) \<and>
           (is_frame_annotated m2 (index m) \<longleftrightarrow>
              (\<exists>oid obj. get_object m (index m) oid = Some obj \<and>
                 (if oid = 1 then has_points obj \<or> has_poly obj else has_content obj))))"
    (is "?A \<and> ?B \<and> ?C")
proof (intro conjI)
  show iff: ?A
    using is_frame_annotated_iff[OF assms] by (simp add: has_content_iff)
  show ?B using iff by fastforce
  let ?m2 = "set_box (set_box m 1 0 0 5 5) 1 0 0 0 0"
  have u2: "unique_keys ?m2"
    using assms by (simp add: set_box_def unique_keys_modify_object)
  have g2: "get_object ?m2 (index m) k =
     (if k = 1 then Some ((current_object m (index m) 1)\<lparr>box := Some (0, 0, 0, 0)\<rparr>)
      else get_object m (index m) k)" for k
    by (simp add: set_box_def get_object_modify_object current_object_modify_object obj_set_box_def)
  have c: "has_content (obj\<lparr>box := Some (0, 0, 0, 0)\<rparr>) = (has_points obj \<or> has_poly obj)" for obj
    by (simp add: has_content_def has_box_def has_points_def has_poly_def)
  have n: "\<not> has_points new_object" "\<not> has_poly new_object"
    by (simp_all add: has_points_def has_poly_def new_object_def)
  have "is_frame_annotated ?m2 (index m) \<longleftrightarrow>
              (\<exists>oid obj. get_object m (index m) oid = Some obj \<and>
                 (if oid = 1 then has_points obj \<or> has_poly obj else has_content obj))"
    unfolding is_frame_annotated_iff[OF u2] g2
    by (auto simp: c current_object_def n split: option.splits if_splits)
  then show ?C unfolding Let_def using g2[of 1] by simp
qed

theorem has_content_law_witness:
  "unique_keys (init_model None) \<and>
   \<not> is_frame_annotated (set_class (init_model None) 1 (Some ''cat'')) 0 \<and>
   get_object (set_class (init_model None) 1 (Some ''cat'')) 0 1
     = Some (new_object\<lparr>class_name := JStr ''cat''\<rparr>) \<and>
   \<not> is_frame_annotated (set_box (set_box (init_model None) 1 0 0 5 5) 1 0 0 0 0) 0 \<and>
   is_frame_annotated (set_box (init_model None) 1 0 0 5 5) 0 \<and>
   map_option box (get_object (set_box (set_box (init_model None) 1 0 0 5 5) 1 0 0 0 0) 0 1)
     = Some (Some (0, 0, 0, 0))"
proof -
  let ?m0 = "init_model None"
  have u: "unique_keys ?m0"
    by (simp add: unique_keys_def init_model_def)
  have i: "index ?m0 = 0" by (simp add: init_model_def)
  have e: "get_object ?m0 0 k = None" for k
    by (simp add: get_object_def init_model_def)
  have u1: "unique_keys (set_class ?m0 1 (Some ''cat''))"
    using u by (simp add: set_class_def unique_keys_modify_object)
  have g1: "get_object (set_class ?m0 1 (Some ''cat'')) 0 k
      = (if k = 1 then Some (new_object\<lparr>class_name := JStr ''cat''\<rparr>) else None)" for k
    by (simp add: set_class_def get_object_modify_object i e current_object_def obj_set_class_def)
  have u3: "unique_keys (set_box ?m0 1 0 0 5 5)"
    using u by (simp add: set_box_def unique_keys_modify_object)
  have g3: "get_object (set_box ?m0 1 0 0 5 5) 0 1 = Some (new_object\<lparr>box := Some (0, 0, 5, 5)\<rparr>)"
    by (simp add: set_box_def get_object_modify_object i e current_object_def obj_set_box_def)
  have "\<forall>oid obj. get_object (set_class ?m0 1 (Some ''cat'')) 0 oid = Some obj \<longrightarrow>
            box obj = None \<and> points obj = [] \<and> polygon obj = None"
    by (simp add: g1 new_object_def)
  with has_content_law[OF u1, of 0]
  have a: "\<not> is_frame_annotated (set_class ?m0 1 (Some ''cat'')) 0" by blast
  have "\<exists>oid obj. get_object (set_box ?m0 1 0 0 5 5) 0 oid = Some obj \<and>
               ((\<exists>x y w h. box obj = Some (x, y, w, h) \<and> w > 0 \<and> h > 0) \<or> points obj \<noteq> [] \<or>
                (\<exists>vs. polygon obj = Some vs \<and> length vs \<ge> 3))"
    by (rule exI[of _ 1]) (simp add: g3 new_object_def)
  with has_content_law[OF u3, of 0]
  have b: "is_frame_annotated (set_box ?m0 1 0 0 5 5) 0" by blast
  have c: "map_option box (get_object (set_box (set_box ?m0 1 0 0 5 5) 1 0 0 0 0) 0 1)
     = Some (Some (0, 0, 0, 0)) \<and>
     \<not> is_frame_annotated (set_box (set_box ?m0 1 0 0 5 5) 1 0 0 0 0) 0"
    using has_content_law[OF u, of 0, THEN conjunct2, THEN conjunct2]
    unfolding Let_def i e by simp
  show ?thesis using u a b c g1[of 1] by simp
qed

section \<open>The segmentation workflow\<close>

text \<open>
  Claim C8. When the object selected in the window has no points and no box with \<open>w > 0\<close> and
  \<open>h > 0\<close> (or does not exist on the current frame), \<^verbatim>\<open>run_sam2\<close> returns with the window
  as it was, whatever the service and the libraries would answer: no store is changed, no
  polygon is committed, and a polygon committed before stays.
\<close>

theorem run_sam2_without_prompt:
  assumes "current_model win = Some model"
    and "case get_object model (index model) (obj_spin win) of
           None \<Rightarrow> True
         | Some obj \<Rightarrow> points obj = [] \<and>
             \<not> (\<exists>x y w h. box obj = Some (x, y, w, h) \<and> w > 0 \<and> h > 0)"
  shows "run_sam2 ext win = Inr win"
  using assms
  by (auto simp: run_sam2_def Let_def has_box_def split: option.splits)

theorem run_sam2_without_prompt_witness:
  "run_sam2 example_externals
     (example_window (set_polygon (set_box (init_model (Some [''0.jpg''])) 1 0 0 0 5) 1 (Some triangle)))
   = Inr (example_window (set_polygon (set_box (init_model (Some [''0.jpg''])) 1 0 0 0 5) 1 (Some triangle)))
   \<and> map_option polygon
       (get_object (set_polygon (set_box (init_model (Some [''0.jpg''])) 1 0 0 0 5) 1 (Some triangle)) 0 1)
     = Some (Some triangle)"
proof -
  let ?m = "set_polygon (set_box (init_model (Some [''0.jpg''])) 1 0 0 0 5) 1 (Some triangle)"
  have i: "index ?m = 0"
    by (simp add: set_polygon_def set_box_def init_model_def)
  have g: "get_object ?m 0 1 =
      Some \<lparr>box = Some (0, 0, 0, 5), points = [], labels = [], polygon = Some triangle,
            class_name = JNull\<rparr>"
    by code_simp
  have c: "current_model (example_window ?m) = Some ?m"
    by (simp add: current_model_def example_window_def)
  have s: "obj_spin (example_window ?m) = 1" by (simp add: example_window_def)
  have "run_sam2 example_externals (example_window ?m) = Inr (example_window ?m)"
    by (rule run_sam2_without_prompt[OF c]) (simp add: i s g)
  then show ?thesis by (simp add: g)
qed

text \<open>
  Claim C9 says that a conversion result of fewer than three vertices is treated as no polygon.
  \<^verbatim>\<open>run_sam2\<close> tests \<^verbatim>\<open>if not poly\<close> only, so a result of one or two vertices is committed:
  here object 1 holds a point and a committed triangle, the mask converts to two vertices,
  and after the run the object's polygon is those two vertices.
\<close>

theorem run_sam2_two_vertex_polygon:
  "map_option polygon
     (get_object (set_polygon (add_point (init_model (Some [''0.jpg''])) 1 1 1 1) 1 (Some triangle)) 0 1)
     = Some (Some triangle) \<and>
   mask_to_polygon example_externals [[False, False], [True, True]] = [(0, 1), (1, 1)] \<and>
   run_sam2 example_externals
     (example_window (set_polygon (add_point (init_model (Some [''0.jpg''])) 1 1 1 1) 1 (Some triangle)))
   = Inr (example_window
       (set_polygon (add_point (init_model (Some [''0.jpg''])) 1 1 1 1) 1 (Some [(0, 1), (1, 1)]))) \<and>
   map_option polygon
     (get_object (set_polygon (add_point (init_model (Some [''0.jpg''])) 1 1 1 1) 1 (Some [(0, 1), (1, 1)])) 0 1)
     = Some (Some [(0, 1), (1, 1)])"
  by code_simp

section \<open>Equal lengths of points and labels\<close>

lemma update_entries:
  "(k', v') \<in> set (AList.update k v al) \<Longrightarrow> (k' = k \<and> v' = v) \<or> (k', v') \<in> set al"
  using set_update_subset[of k v al] by auto

lemma lengths_agree_iff:
  "lengths_agree m \<longleftrightarrow>
     (\<forall>f fr. (f, fr) \<in> set (ann m) \<longrightarrow> (\<forall>k obj. (k, obj) \<in> set (objects fr) \<longrightarrow> len_ok obj))"
  by (fastforce simp: lengths_agree_def list_all_iff len_ok_def)

lemma frame_entries_ok:
  assumes "lengths_agree m" and "(k, obj) \<in> set (objects (frame_at m idx))"
  shows "len_ok obj"
proof (cases "map_of (ann m) idx")
  case None
  with assms(2) show ?thesis by (simp add: frame_at_def dict_get_def new_frame_def)
next
  case (Some fr)
  then have "(idx, fr) \<in> set (ann m)" by (rule map_of_SomeD)
  moreover have "frame_at m idx = fr" using Some by (simp add: frame_at_def dict_get_def)
  ultimately show ?thesis using assms unfolding lengths_agree_iff by blast
qed

lemma len_ok_new_object: "len_ok new_object"
  by (simp add: len_ok_def new_object_def)

lemma len_ok_object_at:
  assumes "\<And>k obj. (k, obj) \<in> set (objects fr) \<Longrightarrow> len_ok obj"
  shows "len_ok (object_at fr oid)"
proof (cases "map_of (objects fr) oid")
  case None
  then show ?thesis by (simp add: object_at_def dict_get_def len_ok_new_object)
next
  case (Some obj)
  then have "(oid, obj) \<in> set (objects fr)" by (rule map_of_SomeD)
  then show ?thesis using assms Some by (simp add: object_at_def dict_get_def)
qed

lemma len_ok_current_object: "lengths_agree m \<Longrightarrow> len_ok (current_object m idx oid)"
  unfolding object_at_frame_at[symmetric]
  by (rule len_ok_object_at) (rule frame_entries_ok)

lemma lengths_agree_update:
  assumes "lengths_agree m" and "\<And>k obj. (k, obj) \<in> set (objects fr) \<Longrightarrow> len_ok obj"
  shows "lengths_agree (m\<lparr>ann := AList.update idx fr (ann m)\<rparr>)"
  unfolding lengths_agree_iff
proof (intro allI impI)
  fix f fr' k obj
  assume a: "(f, fr') \<in> set (ann (m\<lparr>ann := AList.update idx fr (ann m)\<rparr>))"
    and b: "(k, obj) \<in> set (objects fr')"
  from a have "(f = idx \<and> fr' = fr) \<or> (f, fr') \<in> set (ann m)"
    by (auto dest: update_entries)
  then show "len_ok obj"
  proof
    assume "f = idx \<and> fr' = fr" with b assms(2) show ?thesis by blast
  next
    assume "(f, fr') \<in> set (ann m)"
    with b assms(1) show ?thesis unfolding lengths_agree_iff by blast
  qed
qed

lemma lengths_agree_ensure_frame:
  assumes "lengths_agree m" shows "lengths_agree (ensure_frame m idx)"
proof -
  have "lengths_agree (m\<lparr>ann := AList.update idx new_frame (ann m)\<rparr>)"
    using assms by (rule lengths_agree_update) (simp add: new_frame_def)
  then show ?thesis using assms by (simp add: ensure_frame_def)
qed

lemma lengths_agree_modify_object:
  assumes "lengths_agree m" and "len_ok (g (current_object m idx oid))"
  shows "lengths_agree (modify_object m idx oid g)"
proof -
  let ?m1 = "ensure_frame m idx"
  let ?fr = "ensure_object (frame_at ?m1 idx) oid"
  have l1: "lengths_agree ?m1" using assms(1) by (rule lengths_agree_ensure_frame)
  have fr: "len_ok obj" if "(k, obj) \<in> set (objects ?fr)" for k obj
  proof (cases "map_of (objects (frame_at ?m1 idx)) oid = None")
    case True
    with that have "(k, obj) \<in> set (AList.update oid new_object (objects (frame_at ?m1 idx)))"
      by (simp add: ensure_object_def)
    then have "obj = new_object \<or> (k, obj) \<in> set (objects (frame_at ?m1 idx))"
      by (auto dest: update_entries)
    then show ?thesis using frame_entries_ok[OF l1] len_ok_new_object by blast
  next
    case False
    with that have "(k, obj) \<in> set (objects (frame_at ?m1 idx))"
      by (simp add: ensure_object_def)
    then show ?thesis by (rule frame_entries_ok[OF l1])
  qed
  have g: "g (object_at ?fr oid) = g (current_object m idx oid)"
    by (simp only: object_at_ensured object_at_frame_at)
  have "len_ok obj"
    if "(k, obj) \<in> set (AList.update oid (g (object_at ?fr oid)) (objects ?fr))" for k obj
  proof -
    from that have "obj = g (object_at ?fr oid) \<or> (k, obj) \<in> set (objects ?fr)"
      by (auto dest: update_entries)
    then show ?thesis using fr assms(2) g by auto
  qed
  then show ?thesis unfolding modify_object_def Let_def
    by (intro lengths_agree_update l1) simp
qed

lemma load_record_target_None: "record_target r = None \<Longrightarrow> load_record m r = m"
  by (auto simp: load_record_def try_record_def split: json.splits)

lemma load_record_target_Some:
  assumes "record_target r = Some (f, k)"
  obtains d where "r = JObj d"
    and "load_record m r = modify_object m f k (\<lambda>obj. state_of (load_fields d obj))"
    and "raised (try_record m r) = raised (load_fields d (current_object m f k))"
  using assms
  by (cases r) (auto simp: load_record_def try_record_def record_target_def Let_def object_at_frame_at)

lemma load_box_keeps:
  "load_box b obj = Some obj' \<Longrightarrow> points obj' = points obj \<and> labels obj' = labels obj"
  by (auto simp: load_box_def split: json.splits if_splits option.splits list.splits)

lemma load_polygon_keeps:
  "load_polygon p obj = Some obj' \<Longrightarrow> points obj' = points obj \<and> labels obj' = labels obj"
  by (auto simp: load_polygon_def split: json.splits if_splits option.splits)

lemma len_ok_load_fields:
  assumes "len_ok obj" and "balanced_record (JObj d)"
  shows "len_ok (state_of (load_fields d obj))"
proof (cases "int_pairs (get_or_empty d ''points'')")
  case None
  then show ?thesis using assms(1) by (simp add: load_fields_def)
next
  case (Some pts)
  with assms(2) obtain labs where labs: "int_list (get_or_empty d ''labels'') = Some labs"
    and len: "length pts = length labs"
    by (auto simp: balanced_record_def split: option.splits)
  let ?o2 = "obj\<lparr>points := pts, labels := labs\<rparr>"
  have o2: "len_ok ?o2" using len by (simp add: len_ok_def)
  show ?thesis
  proof (cases "load_box (dict_get d ''box'' JNull) ?o2")
    case None
    then show ?thesis using Some labs o2 by (simp add: load_fields_def)
  next
    case b: (Some o3)
    then have o3: "len_ok o3" using o2 load_box_keeps[OF b] by (simp add: len_ok_def)
    show ?thesis
    proof (cases "load_polygon (dict_get d ''polygon'' JNull) o3")
      case None
      then show ?thesis using Some labs b o3 by (simp add: load_fields_def)
    next
      case p: (Some o4)
      then have "len_ok o4" using o3 load_polygon_keeps[OF p] by (simp add: len_ok_def)
      then show ?thesis using Some labs b p by (simp add: load_fields_def len_ok_def)
    qed
  qed
qed

lemma lengths_agree_load_record:
  assumes "lengths_agree m" and "balanced_record r"
  shows "lengths_agree (load_record m r)"
proof (cases "record_target r")
  case None
  then show ?thesis using assms(1) by (simp add: load_record_target_None)
next
  case (Some t)
  obtain f k where t: "t = (f, k)" by (cases t)
  from Some t obtain d where d: "r = JObj d"
    and l: "load_record m r = modify_object m f k (\<lambda>obj. state_of (load_fields d obj))"
    by (auto elim: load_record_target_Some)
  have "len_ok (state_of (load_fields d (current_object m f k)))"
    using assms d by (intro len_ok_load_fields len_ok_current_object) auto
  then show ?thesis unfolding l using assms(1) by (intro lengths_agree_modify_object)
qed

lemma lengths_agree_load_records:
  "lengths_agree m \<Longrightarrow> list_all balanced_record rs \<Longrightarrow> lengths_agree (load_records m rs)"
  unfolding load_records_def
  by (induction rs arbitrary: m) (simp_all add: lengths_agree_load_record)

lemma first_match_bound: "first_match x y l zs = Some i \<Longrightarrow> i < length zs"
  by (induction x y l zs arbitrary: i rule: first_match.induct) (auto split: if_splits)

lemma length_delete_at: "i < length xs \<Longrightarrow> length (delete_at i xs) = length xs - 1"
  by (simp add: delete_at_def)

lemma len_ok_remove_point: "len_ok obj \<Longrightarrow> len_ok (fst (obj_remove_point obj x y l))"
  by (auto simp: obj_remove_point_def len_ok_def length_delete_at
      split: option.splits dest!: first_match_bound)

lemma lengths_agree_clear_object:
  assumes "lengths_agree m" shows "lengths_agree (clear_object m oid)"
proof (cases "map_of (ann m) (index m)")
  case None
  then show ?thesis using assms by (simp add: clear_object_def)
next
  case (Some fr)
  have "(index m, fr) \<in> set (ann m)" using Some by (rule map_of_SomeD)
  then have fr: "len_ok obj" if "(k, obj) \<in> set (objects fr)" for k obj
    using assms that unfolding lengths_agree_iff by blast
  have "len_ok obj"
    if "(k, obj) \<in> set (objects (fr\<lparr>objects := AList.update oid new_object (objects fr)\<rparr>))"
    for k obj
    using that fr len_ok_new_object by (auto dest: update_entries)
  then have "lengths_agree (m\<lparr>ann := AList.update (index m)
                          (fr\<lparr>objects := AList.update oid new_object (objects fr)\<rparr>) (ann m)\<rparr>)"
    using assms by (intro lengths_agree_update)
  then show ?thesis using Some assms by (simp add: clear_object_def lengths_agree_def)
qed

lemma lengths_agree_apply_mutation:
  assumes "lengths_agree m" shows "lengths_agree (apply_mutation m mu)"
proof (cases mu)
  case (AddPoint oid x y l)
  have "len_ok (obj_add_point (current_object m (index m) oid) x y l)"
    using len_ok_current_object[OF assms] by (simp add: obj_add_point_def len_ok_def)
  then show ?thesis using assms AddPoint
    by (simp add: add_point_def lengths_agree_modify_object)
next
  case (RemovePoint oid x y l)
  have "len_ok (fst (obj_remove_point (current_object m (index m) oid) x y l))"
    using len_ok_current_object[OF assms] by (rule len_ok_remove_point)
  then have "lengths_agree (modify_object m (index m) oid (\<lambda>obj. fst (obj_remove_point obj x y l)))"
    using assms by (intro lengths_agree_modify_object)
  then show ?thesis using RemovePoint by (simp add: remove_point_def Let_def)
next
  case (SetBox oid x y w h)
  have "len_ok (obj_set_box (current_object m (index m) oid) x y w h)"
    using len_ok_current_object[OF assms] by (simp add: obj_set_box_def len_ok_def)
  then show ?thesis using assms SetBox
    by (simp add: set_box_def lengths_agree_modify_object)
next
  case (SetPolygon oid poly)
  have "len_ok (obj_set_polygon (current_object m (index m) oid) poly)"
    using len_ok_current_object[OF assms, of "index m" oid]
    by (auto simp: obj_set_polygon_def len_ok_def split: option.splits)
  then show ?thesis using assms SetPolygon
    by (simp add: set_polygon_def lengths_agree_modify_object)
next
  case (SetClass oid name)
  have "len_ok (obj_set_class (current_object m (index m) oid) name)"
    using len_ok_current_object[OF assms] by (simp add: obj_set_class_def len_ok_def)
  then show ?thesis using assms SetClass
    by (simp add: set_class_def lengths_agree_modify_object)
next
  case (ClearObject oid)
  then show ?thesis using assms by (simp add: lengths_agree_clear_object)
next
  case (SetIndex i)
  then show ?thesis using assms by (simp add: set_index_def lengths_agree_def)
qed

text \<open>
  Claim C5, as the code has it. In a new store the points and the labels of every object have
  the same length, and every user operation keeps it so: \<^verbatim>\<open>add_point\<close>, \<^verbatim>\<open>remove_point\<close>,
  \<^verbatim>\<open>set_box\<close>, \<^verbatim>\<open>set_polygon\<close>, \<^verbatim>\<open>set_class\<close>, \<^verbatim>\<open>clear_object\<close> and moving the cursor.
  \<^verbatim>\<open>load_records\<close> keeps it for record lists in which every record whose points convert has
  labels that convert to the same number of items; it does not compare the two lengths.
\<close>

theorem lengths_agree_preserved:
  "lengths_agree (init_model listing) \<and>
   (lengths_agree m \<longrightarrow>
      lengths_agree (apply_mutation m mu) \<and>
      (list_all balanced_record rs \<longrightarrow> lengths_agree (load_records m rs)))"
  by (simp add: lengths_agree_apply_mutation lengths_agree_load_records)
    (simp add: lengths_agree_def init_model_def)

theorem lengths_agree_preserved_witness:
  "lengths_agree (init_model None) \<and>
   lengths_agree (apply_mutation (init_model None) (AddPoint 1 10 20 1)) \<and>
   list_all balanced_record [rec_full, rec_points_only, rec_bad_labels] = False \<and>
   list_all balanced_record [rec_full, rec_points_only] \<and>
   lengths_agree (load_records (init_model None) [rec_full, rec_points_only])"
proof -
  have b: "list_all balanced_record [rec_full, rec_points_only]" by code_simp
  have n: "list_all balanced_record [rec_full, rec_points_only, rec_bad_labels] = False"
    by code_simp
  note t = lengths_agree_preserved[of None "init_model None" "AddPoint 1 10 20 1"
      "[rec_full, rec_points_only]"]
  from t have i: "lengths_agree (init_model None)" by (rule conjunct1)
  from t i have "lengths_agree (apply_mutation (init_model None) (AddPoint 1 10 20 1))"
    and "lengths_agree (load_records (init_model None) [rec_full, rec_points_only])"
    using b by blast+
  then show ?thesis using i b n by blast
qed

text \<open>
  The claim as stated fails for \<^verbatim>\<open>load_records\<close>: a record with one point and no labels
  loads without an exception and leaves one point and no label.
\<close>

theorem load_records_unequal_lengths:
  "lengths_agree (init_model None) \<and>
   \<not> raised (try_record (init_model None) rec_no_labels) \<and>
   \<not> lengths_agree (load_records (init_model None) [rec_no_labels])"
  by code_simp

section \<open>Records that fail to parse\<close>

lemma load_box_keeps_rest:
  "load_box b obj = Some obj' \<Longrightarrow> polygon obj' = polygon obj \<and> class_name obj' = class_name obj"
  by (auto simp: load_box_def split: json.splits if_splits option.splits list.splits)

lemma raised_load_fields_keeps:
  assumes "raised (load_fields d obj)"
  shows "polygon (state_of (load_fields d obj)) = polygon obj \<and>
         class_name (state_of (load_fields d obj)) = class_name obj"
proof (cases "int_pairs (get_or_empty d ''points'')")
  case None
  then show ?thesis by (simp add: load_fields_def)
next
  case pts: (Some pts)
  show ?thesis
  proof (cases "int_list (get_or_empty d ''labels'')")
    case None
    then show ?thesis using pts by (simp add: load_fields_def)
  next
    case labs: (Some labs)
    let ?o2 = "obj\<lparr>points := pts, labels := labs\<rparr>"
    show ?thesis
    proof (cases "load_box (dict_get d ''box'' JNull) ?o2")
      case None
      then show ?thesis using pts labs by (simp add: load_fields_def)
    next
      case b: (Some o3)
      have o3: "polygon o3 = polygon obj" "class_name o3 = class_name obj"
        using load_box_keeps_rest[OF b] by simp_all
      show ?thesis
      proof (cases "load_polygon (dict_get d ''polygon'' JNull) o3")
        case None
        then show ?thesis using pts labs b o3 by (simp add: load_fields_def)
      next
        case (Some o4)
        then have "\<not> raised (load_fields d obj)" using pts labs b by (simp add: load_fields_def)
        with assms show ?thesis by simp
      qed
    qed
  qed
qed

lemma modify_object_ann_fields:
  "frames (load_record m r) = frames m \<and> index (load_record m r) = index m \<and>
   dirty (load_record m r) = dirty m"
proof (cases "record_target r")
  case None
  then show ?thesis by (simp add: load_record_target_None)
next
  case (Some t)
  then show ?thesis by (cases t) (auto elim!: load_record_target_Some[where m = m])
qed

lemma load_records_append:
  "load_records m (pre @ rs) = load_records (load_records m pre) rs"
  by (simp add: load_records_def)

lemma load_records_Cons: "load_records m (r # rs) = load_records (load_record m r) rs"
  by (simp add: load_records_def)

lemma load_polygon_keeps_box:
  "load_polygon p obj = Some obj' \<Longrightarrow> box obj' = box obj"
  by (auto simp: load_polygon_def split: json.splits if_splits option.splits)

lemma raised_load_fields_state:
  assumes "raised (load_fields d obj)"
  shows "state_of (load_fields d obj) =
     (case int_pairs (get_or_empty d ''points'') of
        None \<Rightarrow> obj
      | Some pts \<Rightarrow>
          (case int_list (get_or_empty d ''labels'') of
             None \<Rightarrow> obj\<lparr>points := pts\<rparr>
           | Some labs \<Rightarrow>
               (case load_box (dict_get d ''box'' JNull) (obj\<lparr>points := pts, labels := labs\<rparr>) of
                  None \<Rightarrow> obj\<lparr>points := pts, labels := labs\<rparr>
                | Some obj3 \<Rightarrow> obj3)))"
  using assms
  by (auto simp: load_fields_def Let_def split: option.splits)

lemma skipped_record_state:
  assumes "raised (try_record m (JObj d))" and "record_target (JObj d) = Some (f, k)"
  shows "get_object (load_record m (JObj d)) f k =
     Some (case int_pairs (get_or_empty d ''points'') of
        None \<Rightarrow> current_object m f k
      | Some pts \<Rightarrow>
          (case int_list (get_or_empty d ''labels'') of
             None \<Rightarrow> (current_object m f k)\<lparr>points := pts\<rparr>
           | Some labs \<Rightarrow>
               (case load_box (dict_get d ''box'' JNull)
                       ((current_object m f k)\<lparr>points := pts, labels := labs\<rparr>) of
                  None \<Rightarrow> (current_object m f k)\<lparr>points := pts, labels := labs\<rparr>
                | Some obj3 \<Rightarrow> obj3)))"
proof -
  from assms(2) obtain d' where d': "JObj d = JObj d'"
    and l: "load_record m (JObj d) = modify_object m f k (\<lambda>obj. state_of (load_fields d' obj))"
    and r: "raised (try_record m (JObj d)) = raised (load_fields d' (current_object m f k))"
    by (auto elim: load_record_target_Some[where m = m])
  from d' have [simp]: "d' = d" by simp
  from r assms(1) have "raised (load_fields d (current_object m f k))" by simp
  from raised_load_fields_state[OF this] show ?thesis
    by (simp add: l get_object_modify_object)
qed

text \<open>
  What a record that raises can and cannot change. A record that is not a dict, or whose
  \<^verbatim>\<open>frame_idx\<close> or \<^verbatim>\<open>obj_id\<close> does not convert, changes nothing: the load is the load without
  it. A record that raises later changes no object but the one it addresses, keeps that
  object's polygon and class, and keeps the frame list, the cursor and the dirty flag; what
  it leaves in the addressed object is given by \<open>skipped_record_state\<close>.
\<close>

theorem skipped_record_effect:
  assumes "raised (try_record m r)"
  shows "(record_target r = None \<longrightarrow>
            load_records m0 (pre @ r # rest) = load_records m0 (pre @ rest)) \<and>
         load_records m0 (pre @ r # rest)
            = load_records (load_record (load_records m0 pre) r) rest \<and>
         (\<forall>f k. record_target r \<noteq> Some (f, k) \<longrightarrow>
            get_object (load_record m r) f k = get_object m f k) \<and>
         (\<forall>f k. record_target r = Some (f, k) \<longrightarrow>
            polygon (current_object (load_record m r) f k) = polygon (current_object m f k) \<and>
            class_name (current_object (load_record m r) f k) = class_name (current_object m f k)) \<and>
         frames (load_record m r) = frames m \<and> index (load_record m r) = index m \<and>
         dirty (load_record m r) = dirty m"
proof (intro conjI allI impI)
  show "load_records m0 (pre @ r # rest) = load_records m0 (pre @ rest)"
    if "record_target r = None"
    using that by (simp add: load_records_append load_records_Cons load_record_target_None)
  show "load_records m0 (pre @ r # rest)
            = load_records (load_record (load_records m0 pre) r) rest"
    by (simp add: load_records_append load_records_Cons)
  show "get_object (load_record m r) f k = get_object m f k"
    if n: "record_target r \<noteq> Some (f, k)" for f k
  proof (cases "record_target r")
    case None
    then show ?thesis by (simp add: load_record_target_None)
  next
    case (Some t)
    obtain f' k' where t: "t = (f', k')" by (cases t)
    from Some t obtain d where
      "load_record m r = modify_object m f' k' (\<lambda>obj. state_of (load_fields d obj))"
      by (auto elim: load_record_target_Some)
    then show ?thesis using n Some t by (auto simp: get_object_modify_object)
  qed
  show "polygon (current_object (load_record m r) f k) = polygon (current_object m f k)"
    and "class_name (current_object (load_record m r) f k) = class_name (current_object m f k)"
    if s: "record_target r = Some (f, k)" for f k
  proof -
    from s obtain d where
      l: "load_record m r = modify_object m f k (\<lambda>obj. state_of (load_fields d obj))"
      and "raised (try_record m r) = raised (load_fields d (current_object m f k))"
      by (auto elim: load_record_target_Some[where m = m])
    with assms have "raised (load_fields d (current_object m f k))" by simp
    from raised_load_fields_keeps[OF this]
    show "polygon (current_object (load_record m r) f k) = polygon (current_object m f k)"
      and "class_name (current_object (load_record m r) f k) = class_name (current_object m f k)"
      by (simp_all add: l current_object_modify_object)
  qed
  show "frames (load_record m r) = frames m" "index (load_record m r) = index m"
    "dirty (load_record m r) = dirty m"
    using modify_object_ann_fields[of m r] by simp_all
qed

theorem skipped_record_effect_witness:
  "raised (try_record (load_records (init_model None) [rec_full]) rec_bad_labels) \<and>
   record_target rec_bad_labels = Some (0, 1) \<and>
   get_object (load_record (load_records (init_model None) [rec_full]) rec_bad_labels) 0 2
     = get_object (load_records (init_model None) [rec_full]) 0 2 \<and>
   polygon (current_object (load_record (load_records (init_model None) [rec_full]) rec_bad_labels) 0 1)
     = Some [(0, 0), (4, 0), (4, 4)] \<and>
   class_name (current_object (load_record (load_records (init_model None) [rec_full]) rec_bad_labels) 0 1)
     = JStr ''cat'' \<and>
   load_records (init_model None) ([rec_full] @ rec_bad_labels # [rec_points_only])
     = load_records (load_record (load_records (init_model None) [rec_full]) rec_bad_labels)
         [rec_points_only]"
proof -
  let ?m = "load_records (init_model None) [rec_full]"
  have r: "raised (try_record ?m rec_bad_labels)" by code_simp
  have t: "record_target rec_bad_labels = Some (0, 1)" by code_simp
  have p: "polygon (current_object ?m 0 1) = Some [(0, 0), (4, 0), (4, 4)]" by code_simp
  have c: "class_name (current_object ?m 0 1) = JStr ''cat''" by code_simp
  note e = skipped_record_effect[OF r, of "init_model None" "[rec_full]" "[rec_points_only]"]
  from e have 1: "load_records (init_model None) ([rec_full] @ rec_bad_labels # [rec_points_only])
     = load_records (load_record ?m rec_bad_labels) [rec_points_only]" by blast
  from e have "\<forall>f k. record_target rec_bad_labels \<noteq> Some (f, k) \<longrightarrow>
            get_object (load_record ?m rec_bad_labels) f k = get_object ?m f k" by blast
  then have 2: "get_object (load_record ?m rec_bad_labels) 0 2 = get_object ?m 0 2"
    using t by simp
  from e have "\<forall>f k. record_target rec_bad_labels = Some (f, k) \<longrightarrow>
            polygon (current_object (load_record ?m rec_bad_labels) f k) = polygon (current_object ?m f k) \<and>
            class_name (current_object (load_record ?m rec_bad_labels) f k) = class_name (current_object ?m f k)"
    by blast
  with t have 3: "polygon (current_object (load_record ?m rec_bad_labels) 0 1) = polygon (current_object ?m 0 1)"
    and 4: "class_name (current_object (load_record ?m rec_bad_labels) 0 1) = class_name (current_object ?m 0 1)"
    by blast+
  show ?thesis using r t 1 2 3 4 p c by simp
qed

text \<open>
  Claim C7 says that a record that fails to parse is skipped and leaves the object it
  addresses as it was. The \<^verbatim>\<open>try\<close> block of \<^verbatim>\<open>load_records\<close> assigns field by field, and
  \<^verbatim>\<open>except Exception: continue\<close> restores nothing, so the assignments made before the
  exception stay. Here the store holds the object of a full record; the next record has two
  points and a label that does not convert. It raises, and the object is left with the two
  new points and the one old label.
\<close>

theorem skipped_record_changes_object:
  "raised (try_record (load_records (init_model None) [rec_full]) rec_bad_labels) \<and>
   get_object (load_records (init_model None) [rec_full]) 0 1 =
     Some \<lparr>box = Some (0, 0, 5, 5), points = [(1, 2)], labels = [1],
           polygon = Some [(0, 0), (4, 0), (4, 4)], class_name = JStr ''cat''\<rparr> \<and>
   get_object (load_records (init_model None) [rec_full, rec_bad_labels]) 0 1 =
     Some \<lparr>box = Some (0, 0, 5, 5), points = [(7, 8), (9, 9)], labels = [1],
           polygon = Some [(0, 0), (4, 0), (4, 4)], class_name = JStr ''cat''\<rparr>"
  by code_simp

section \<open>Two records for one object\<close>

text \<open>
  Claim C2 says that a later record for the same frame and object replaces every field of the
  earlier one. \<^verbatim>\<open>load_records\<close> assigns the box and the polygon only when the record carries
  them, so after a full record and a record with points and labels only, the object has the
  points, labels and class of the second record with the box and polygon of the first; the
  second record alone gives no box and no polygon.
\<close>

theorem load_records_keeps_earlier_box:
  "get_object (load_records (init_model None) [rec_full, rec_points_only]) 0 1 =
     Some \<lparr>box = Some (0, 0, 5, 5), points = [(3, 4)], labels = [0],
           polygon = Some [(0, 0), (4, 0), (4, 4)], class_name = JNull\<rparr> \<and>
   get_object (load_records (init_model None) [rec_points_only]) 0 1 =
     Some \<lparr>box = None, points = [(3, 4)], labels = [0], polygon = None, class_name = JNull\<rparr>"
  by code_simp

section \<open>Saving\<close>

text \<open>
  Claim C10, as the code has it. \<^verbatim>\<open>save_annotations\<close> keeps the stores and their order and
  changes nothing in them but the dirty flag, which is cleared in every store; the flags are
  cleared while the records are collected, before the file is written, so the stores it
  leaves do not depend on whether the write succeeds. When it succeeds, the file holds the
  schema version and the concatenation of the stores' records, in the order of the stores.
\<close>

theorem save_annotations_effect:
  "map fst (fst (save_annotations io_ok ms)) = map fst ms \<and>
   (\<forall>e \<in> set (fst (save_annotations io_ok ms)). \<not> dirty (snd e)) \<and>
   map (\<lambda>e. (snd e)\<lparr>dirty := True\<rparr>) (fst (save_annotations io_ok ms))
     = map (\<lambda>e. (snd e)\<lparr>dirty := True\<rparr>) ms \<and>
   fst (save_annotations io_ok ms) = fst (save_annotations (\<not> io_ok) ms) \<and>
   (io_ok \<longrightarrow> snd (save_annotations io_ok ms) =
      Inr (JObj [(''schema_version'', JInt 1),
                 (''annotations'', JList (concat (map (\<lambda>e. to_records (snd e) (fst e)) ms)))]))"
  by (auto simp: save_annotations_def Let_def ANNOT_SCHEMA_VERSION_def case_prod_unfold
      intro!: arg_cong[where f = concat])

theorem save_annotations_effect_witness:
  "map (\<lambda>e. dirty (snd e))
     (fst (save_annotations True [(''a'', add_point (init_model None) 1 10 20 1),
                                  (''b'', set_box (init_model None) 2 0 0 5 5)])) = [False, False] \<and>
   snd (save_annotations True [(''a'', add_point (init_model None) 1 10 20 1),
                               (''b'', set_box (init_model None) 2 0 0 5 5)]) =
     Inr (JObj [(''schema_version'', JInt 1),
                (''annotations'',
                 JList (to_records (add_point (init_model None) 1 10 20 1) ''a'' @
                        to_records (set_box (init_model None) 2 0 0 5 5) ''b''))])"
proof -
  let ?ms = "[(''a'', add_point (init_model None) 1 10 20 1),
              (''b'', set_box (init_model None) 2 0 0 5 5)]"
  note t = save_annotations_effect[of True ?ms]
  from t have d: "\<forall>e \<in> set (fst (save_annotations True ?ms)). \<not> dirty (snd e)" by blast
  from t have k: "map fst (fst (save_annotations True ?ms)) = map fst ?ms" by blast
  from k have "length (fst (save_annotations True ?ms)) = 2"
    by (metis length_map length_Cons list.size(3) numeral_2_eq_2)
  then obtain x y where xy: "fst (save_annotations True ?ms) = [x, y]"
    by (auto simp: length_Suc_conv numeral_2_eq_2)
  with d have 1: "map (\<lambda>e. dirty (snd e)) (fst (save_annotations True ?ms)) = [False, False]"
    by simp
  from t have 2: "snd (save_annotations True ?ms) =
      Inr (JObj [(''schema_version'', JInt 1),
                 (''annotations'', JList (concat (map (\<lambda>e. to_records (snd e) (fst e)) ?ms)))])"
    by blast
  show ?thesis using 1 2 by simp
qed

text \<open>
  The claim as stated fails: when the write raises, the flag of a store that was dirty has
  been cleared already.
\<close>

theorem save_failure_clears_dirty:
  "dirty (add_point (init_model None) 1 10 20 1) \<and>
   snd (save_annotations False [(''v'', add_point (init_model None) 1 10 20 1)]) = Inl OSError \<and>
   map (\<lambda>e. dirty (snd e)) (fst (save_annotations False [(''v'', add_point (init_model None) 1 10 20 1)]))
     = [False]"
  by code_simp

section \<open>Removing a point\<close>

lemma first_match_None:
  "first_match x y l zs = None \<longleftrightarrow> (\<forall>i < length zs. zs ! i \<noteq> ((x, y), l))"
proof (induction x y l zs rule: first_match.induct)
  case (1 x y label)
  then show ?case by simp
next
  case (2 x y label px py lab zs)
  show ?case
  proof (cases "px = x \<and> py = y \<and> lab = label")
    case True
    then show ?thesis by auto
  next
    case False
    then have "first_match x y label (((px, py), lab) # zs) = None
        \<longleftrightarrow> (\<forall>i < length zs. zs ! i \<noteq> ((x, y), label))"
      using 2 by auto
    also have "\<dots> \<longleftrightarrow> (\<forall>i < length (((px, py), lab) # zs). (((px, py), lab) # zs) ! i \<noteq> ((x, y), label))"
      using False by (auto simp: nth_Cons split: nat.splits)
    finally show ?thesis .
  qed
qed

lemma first_match_Some:
  "first_match x y l zs = Some i \<longleftrightarrow>
     (i < length zs \<and> zs ! i = ((x, y), l) \<and> (\<forall>j < i. zs ! j \<noteq> ((x, y), l)))"
proof (induction x y l zs arbitrary: i rule: first_match.induct)
  case (1 x y label)
  then show ?case by simp
next
  case (2 x y label px py lab zs)
  show ?case
  proof (cases "px = x \<and> py = y \<and> lab = label")
    case True
    then show ?thesis by (cases i) auto
  next
    case False
    show ?thesis
    proof (cases i)
      case 0
      then show ?thesis using False by auto
    next
      case (Suc n)
      have "first_match x y label (((px, py), lab) # zs) = Some i
          \<longleftrightarrow> first_match x y label zs = Some n"
        using False Suc by auto
      also have "\<dots> \<longleftrightarrow> (n < length zs \<and> zs ! n = ((x, y), label) \<and>
           (\<forall>j < n. zs ! j \<noteq> ((x, y), label)))"
        using 2 False by blast
      also have "\<dots> \<longleftrightarrow> (i < length (((px, py), lab) # zs) \<and>
           (((px, py), lab) # zs) ! i = ((x, y), label) \<and>
           (\<forall>j < i. (((px, py), lab) # zs) ! j \<noteq> ((x, y), label)))"
        using False Suc by (auto simp: nth_Cons less_Suc_eq_0_disj split: nat.splits)
      finally show ?thesis .
    qed
  qed
qed

lemma zip_match:
  "i < length (zip ps ls) \<Longrightarrow> zip ps ls ! i = ((x, y), l) \<longleftrightarrow> ps ! i = (x, y) \<and> ls ! i = l"
  by auto

lemma obj_remove_point_none:
  assumes "\<not> (\<exists>i. matches obj x y l i)"
  shows "obj_remove_point obj x y l = (obj, False)"
proof -
  have "first_match x y l (zip (points obj) (labels obj)) = None"
    unfolding first_match_None using assms by (auto simp: matches_def)
  then show ?thesis by (simp add: obj_remove_point_def)
qed

lemma obj_remove_point_first:
  assumes "matches obj x y l i" and "\<forall>j < i. \<not> matches obj x y l j"
  shows "obj_remove_point obj x y l =
    (obj\<lparr>points := take i (points obj) @ drop (Suc i) (points obj),
         labels := take i (labels obj) @ drop (Suc i) (labels obj)\<rparr>, True)"
proof -
  have "first_match x y l (zip (points obj) (labels obj)) = Some i"
    unfolding first_match_Some using assms by (auto simp: matches_def)
  then show ?thesis by (simp add: obj_remove_point_def delete_at_def)
qed

lemma has_content_new_object: "\<not> has_content new_object"
  by (simp add: has_content_def has_box_def has_points_def has_poly_def new_object_def)

lemma current_object_content:
  "has_content (current_object m f k) \<longleftrightarrow> (\<exists>obj. get_object m f k = Some obj \<and> has_content obj)"
  by (auto simp: current_object_def has_content_new_object split: option.splits)

lemma is_frame_annotated_touch:
  assumes "unique_keys m"
  shows "is_frame_annotated (modify_object m idx oid (\<lambda>obj. obj)) f = is_frame_annotated m f"
proof -
  have u: "unique_keys (modify_object m idx oid (\<lambda>obj. obj))"
    using assms by (rule unique_keys_modify_object)
  show ?thesis
    unfolding is_frame_annotated_iff[OF u] is_frame_annotated_iff[OF assms]
      get_object_modify_object
    using current_object_content[of m idx oid] by auto
qed

text \<open>
  Claim C4, as the code has it. Let \<open>obj\<close> be the addressed object of the current frame, or a
  new object when there is none. If no item of \<^verbatim>\<open>zip(points, labels)\<close> is \<open>(x, y)\<close> with that
  label, \<^verbatim>\<open>remove_point\<close> returns false, leaves the dirty flag, the cursor and the frame list
  as they were, and leaves every object as it was, except that the addressed object (and its
  frame entry) now exists, empty, if it did not before; no frame changes its annotated
  status. If \<open>i\<close> is the first matching item, it returns true, sets the dirty flag, and the
  object loses item \<open>i\<close> of its points and item \<open>i\<close> of its labels, nothing else.
\<close>

theorem remove_point_effect:
  "let obj = current_object m (index m) oid; res = remove_point m oid x y label in
     (\<not> (\<exists>i. matches obj x y label i) \<longrightarrow>
        snd res = False \<and> dirty (fst res) = dirty m \<and>
        index (fst res) = index m \<and> frames (fst res) = frames m \<and>
        (\<forall>f k. get_object (fst res) f k =
                 (if f = index m \<and> k = oid then Some obj else get_object m f k)) \<and>
        (unique_keys m \<longrightarrow> (\<forall>f. is_frame_annotated (fst res) f = is_frame_annotated m f))) \<and>
     (\<forall>i. matches obj x y label i \<and> (\<forall>j < i. \<not> matches obj x y label j) \<longrightarrow>
        snd res = True \<and> dirty (fst res) \<and>
        index (fst res) = index m \<and> frames (fst res) = frames m \<and>
        (\<forall>f k. get_object (fst res) f k =
                 (if f = index m \<and> k = oid
                  then Some (obj\<lparr>points := take i (points obj) @ drop (Suc i) (points obj),
                                  labels := take i (labels obj) @ drop (Suc i) (labels obj)\<rparr>)
                  else get_object m f k)))"
proof -
  let ?obj = "current_object m (index m) oid"
  let ?res = "remove_point m oid x y label"
  have none: "snd ?res = False \<and> dirty (fst ?res) = dirty m \<and>
        index (fst ?res) = index m \<and> frames (fst ?res) = frames m \<and>
        (\<forall>f k. get_object (fst ?res) f k =
                 (if f = index m \<and> k = oid then Some ?obj else get_object m f k)) \<and>
        (unique_keys m \<longrightarrow> (\<forall>f. is_frame_annotated (fst ?res) f = is_frame_annotated m f))"
    if n: "\<not> (\<exists>i. matches ?obj x y label i)"
  proof -
    have r: "obj_remove_point ?obj x y label = (?obj, False)"
      using n by (rule obj_remove_point_none)
    have eq: "modify_object m (index m) oid (\<lambda>obj. fst (obj_remove_point obj x y label))
        = modify_object m (index m) oid (\<lambda>obj. obj)"
      by (simp add: modify_object_def Let_def object_at_ensured object_at_frame_at r)
    have res: "?res = (modify_object m (index m) oid (\<lambda>obj. obj), False)"
      by (simp add: remove_point_def Let_def object_at_frame_at r eq)
    show ?thesis unfolding res
      by (simp add: get_object_modify_object is_frame_annotated_touch)
  qed
  have first: "snd ?res = True \<and> dirty (fst ?res) \<and>
        index (fst ?res) = index m \<and> frames (fst ?res) = frames m \<and>
        (\<forall>f k. get_object (fst ?res) f k =
                 (if f = index m \<and> k = oid
                  then Some (?obj\<lparr>points := take i (points ?obj) @ drop (Suc i) (points ?obj),
                                  labels := take i (labels ?obj) @ drop (Suc i) (labels ?obj)\<rparr>)
                  else get_object m f k))"
    if a: "matches ?obj x y label i" and b: "\<forall>j < i. \<not> matches ?obj x y label j" for i
  proof -
    note r = obj_remove_point_first[OF a b]
    have res: "?res = ((modify_object m (index m) oid
                          (\<lambda>obj. fst (obj_remove_point obj x y label)))\<lparr>dirty := True\<rparr>, True)"
      by (simp add: remove_point_def Let_def object_at_frame_at r)
    show ?thesis unfolding res
      by (simp add: get_object_modify_object r)
  qed
  show ?thesis unfolding Let_def using none first by blast
qed

theorem remove_point_effect_witness:
  "snd (remove_point three_points 1 5 5 1) = True \<and>
   dirty (fst (remove_point three_points 1 5 5 1)) \<and>
   get_object (fst (remove_point three_points 1 5 5 1)) 0 1 =
     Some \<lparr>box = None, points = [(7, 7), (5, 5)], labels = [0, 1], polygon = None,
           class_name = JNull\<rparr> \<and>
   snd (remove_point three_points 1 5 5 0) = False \<and>
   get_object (fst (remove_point three_points 1 5 5 0)) 0 1 = get_object three_points 0 1 \<and>
   get_object three_points 0 1 =
     Some \<lparr>box = None, points = [(5, 5), (7, 7), (5, 5)], labels = [1, 0, 1], polygon = None,
           class_name = JNull\<rparr>"
proof -
  let ?o = "\<lparr>box = None, points = [(5, 5), (7, 7), (5, 5)], labels = [1, 0, 1], polygon = None,
           class_name = JNull\<rparr> :: ObjectAnno"
  have i: "index three_points = 0" by code_simp
  have g: "get_object three_points 0 1 = Some ?o" by code_simp
  have c: "current_object three_points (index three_points) 1 = ?o"
    by (simp add: current_object_def i g)
  have m0: "matches ?o 5 5 1 0" by (simp add: matches_def)
  have n: "\<not> (\<exists>i. matches ?o 5 5 0 i)"
    by (auto simp: matches_def nth_Cons split: nat.splits)
  note t1 = remove_point_effect[of three_points 1 5 5 1, unfolded Let_def c, THEN conjunct2,
      rule_format, of 0]
  have a: "snd (remove_point three_points 1 5 5 1) = True \<and>
     dirty (fst (remove_point three_points 1 5 5 1)) \<and>
     get_object (fst (remove_point three_points 1 5 5 1)) 0 1 =
       Some \<lparr>box = None, points = [(7, 7), (5, 5)], labels = [0, 1], polygon = None,
             class_name = JNull\<rparr>"
    using t1 m0 by (simp add: i)
  note t2 = remove_point_effect[of three_points 1 5 5 0, unfolded Let_def c, THEN conjunct1,
      rule_format]
  have b: "snd (remove_point three_points 1 5 5 0) = False \<and>
     get_object (fst (remove_point three_points 1 5 5 0)) 0 1 = get_object three_points 0 1"
    using t2 n by (simp add: i g)
  show ?thesis using a b g by simp
qed

text \<open>
  The claim as stated fails where it says that nothing is mutated: \<^verbatim>\<open>remove_point\<close> starts
  with \<^verbatim>\<open>ensure_object\<close>, so on a store without the object \<^verbatim>\<open>get_object\<close> answers
  \<^verbatim>\<open>None\<close> before the call and an empty object after it.
\<close>

theorem remove_point_creates_object:
  "snd (remove_point (init_model None) 1 0 0 1) = False \<and>
   get_object (init_model None) 0 1 = None \<and>
   get_object (fst (remove_point (init_model None) 1 0 0 1)) 0 1 = Some new_object"
  by code_simp

section \<open>The frame ordering key\<close>



















section \<open>Saving and reloading a store\<close>

lemma concat_map_if:
  "concat (map (\<lambda>x. if P x then [] else [g x]) xs) = map g (filter (\<lambda>x. \<not> P x) xs)"
  by (induction xs) auto

lemma frame_records_eq:
  "frame_records vid f (frame_at m f) =
     map (\<lambda>k. to_record vid f k (object_at (frame_at m f) k)) (object_keys m f)"
  by (simp add: frame_records_def object_keys_def Let_def concat_map_if)

lemma to_records_eq:
  "to_records m vid =
     map (\<lambda>fk. to_record vid (fst fk) (snd fk) (current_object m (fst fk) (snd fk))) (entry_keys m)"
  by (simp add: to_records_def entry_keys_def frame_records_eq map_concat comp_def
      object_at_frame_at)

lemma in_keys_iff: "k \<in> fst ` set al \<longleftrightarrow> map_of al k \<noteq> None"
  by (simp add: map_of_eq_None_iff)

lemma entry_keys_iff:
  "(f, k) \<in> set (entry_keys m) \<longleftrightarrow> (\<exists>obj. get_object m f k = Some obj \<and> has_content obj)"
proof (cases "map_of (ann m) f")
  case None
  then have "f \<notin> fst ` set (ann m)" by (simp add: map_of_eq_None_iff)
  then show ?thesis using None by (auto simp: entry_keys_def get_object_def)
next
  case (Some fr)
  then have f: "f \<in> fst ` set (ann m)" by (metis in_keys_iff option.distinct(1))
  have fa: "frame_at m f = fr" using Some by (simp add: frame_at_def dict_get_def)
  show ?thesis
  proof (cases "map_of (objects fr) k")
    case None
    then have "k \<notin> fst ` set (objects fr)" by (simp add: map_of_eq_None_iff)
    then show ?thesis using None Some fa
      by (auto simp: entry_keys_def object_keys_def get_object_def)
  next
    case obj: (Some obj)
    then have "k \<in> fst ` set (objects fr)" by (metis in_keys_iff option.distinct(1))
    moreover have "object_at fr k = obj" using obj by (simp add: object_at_def dict_get_def)
    ultimately show ?thesis using f fa obj Some
      by (auto simp: entry_keys_def object_keys_def get_object_def)
  qed
qed

lemma distinct_pairs_concat:
  assumes "distinct fs" and "\<And>f. distinct (ks f)"
  shows "distinct (concat (map (\<lambda>f. map (Pair f) (ks f)) fs))"
  using assms(1)
proof (induction fs)
  case Nil
  then show ?case by simp
next
  case (Cons f fs)
  have "distinct (map (Pair f) (ks f))" using assms(2) by (simp add: distinct_map inj_on_def)
  moreover have "set (map (Pair f) (ks f)) \<inter> set (concat (map (\<lambda>f. map (Pair f) (ks f)) fs)) = {}"
    using Cons.prems by auto
  ultimately show ?case using Cons by simp
qed

lemma distinct_entry_keys:
  assumes "unique_keys m" shows "distinct (entry_keys m)"
  unfolding entry_keys_def
proof (rule distinct_pairs_concat)
  show "distinct (sort (map fst (ann m)))" using assms by (simp add: unique_keys_def)
  show "distinct (object_keys m f)" for f
    using distinct_frame_at[OF assms, of f] by (simp add: object_keys_def)
qed

lemma to_record_fields: "to_record vid f k obj = JObj (record_fields vid f k obj)"
  by (simp add: record_fields_def to_record_def)

lemma map_all_int_pair:
  "map_all int_pair (map (\<lambda>(x, y). JList [JInt x, JInt y]) pts) = Some pts"
  by (induction pts) (auto simp: int_pair_def unpack2_def)

lemma map_all_py_int: "map_all py_int (map JInt ls) = Some ls"
  by (induction ls) auto

lemma fields_lookup:
  "map_of (record_fields vid f k obj) ''frame_idx'' = Some (JInt f)"
  "map_of (record_fields vid f k obj) ''obj_id'' = Some (JInt k)"
  "map_of (record_fields vid f k obj) ''points''
     = Some (JList (map (\<lambda>(x, y). JList [JInt x, JInt y]) (points obj)))"
  "map_of (record_fields vid f k obj) ''labels'' = Some (JList (map JInt (labels obj)))"
  by (simp_all add: record_fields_def to_record_def)

lemma fields_class:
  "dict_get (record_fields vid f k obj) ''class'' JNull
     = (if py_truthy (class_name obj) then class_name obj else JNull)"
  by (auto simp: record_fields_def to_record_def dict_get_def box_entry_def polygon_entry_def
      map_add_def split: option.splits)

lemma fields_box:
  "dict_get (record_fields vid f k obj) ''box'' JNull
     = (case box obj of
          None \<Rightarrow> JNull
        | Some (x, y, w, h) \<Rightarrow>
            if w > 0 \<and> h > 0 then JList [JInt x, JInt y, JInt w, JInt h] else JNull)"
  by (auto simp: record_fields_def to_record_def dict_get_def box_entry_def polygon_entry_def
      map_add_def split: option.splits)

lemma fields_polygon:
  "dict_get (record_fields vid f k obj) ''polygon'' JNull
     = (case polygon obj of
          None \<Rightarrow> JNull
        | Some vs \<Rightarrow>
            if length vs \<ge> 3 then JList (map (\<lambda>(x, y). JList [JInt x, JInt y]) vs) else JNull)"
  by (auto simp: record_fields_def to_record_def dict_get_def box_entry_def polygon_entry_def
      map_add_def split: option.splits)

lemma get_points_field:
  "get_or_empty (record_fields vid f k obj) ''points''
     = JList (map (\<lambda>(x, y). JList [JInt x, JInt y]) (points obj))"
  by (cases "points obj") (simp_all add: get_or_empty_def dict_get_def fields_lookup Let_def)

lemma get_labels_field:
  "get_or_empty (record_fields vid f k obj) ''labels'' = JList (map JInt (labels obj))"
  by (cases "labels obj") (simp_all add: get_or_empty_def dict_get_def fields_lookup Let_def)

lemma fields_points:
  "int_pairs (get_or_empty (record_fields vid f k obj) ''points'') = Some (points obj)"
  unfolding get_points_field by (simp add: int_pairs_def map_all_int_pair)

lemma fields_labels:
  "int_list (get_or_empty (record_fields vid f k obj) ''labels'') = Some (labels obj)"
  unfolding get_labels_field by (simp add: int_list_def map_all_py_int)

lemma load_box_fields:
  "load_box (dict_get (record_fields vid f k obj) ''box'' JNull) old
     = Some (old\<lparr>box := (if has_box obj then box obj else box old)\<rparr>)"
  by (auto simp: fields_box load_box_def has_box_def split: option.splits)

lemma load_polygon_fields:
  "load_polygon (dict_get (record_fields vid f k obj) ''polygon'' JNull) old
     = Some (old\<lparr>polygon := (if has_poly obj then polygon obj else polygon old)\<rparr>)"
  by (auto simp: fields_polygon load_polygon_def has_poly_def map_all_int_pair split: option.splits)

lemma load_fields_record_fields:
  "load_fields (record_fields vid f k obj) old = Completed (reloaded old obj)"
  by (simp add: load_fields_def fields_points fields_labels load_box_fields load_polygon_fields
      fields_class reloaded_def Let_def)

lemma record_target_to_record: "record_target (to_record vid f k obj) = Some (f, k)"
  by (simp add: to_record_fields record_target_def dict_get_def fields_lookup)

lemma load_record_to_record:
  "load_record s (to_record vid f k obj) = modify_object s f k (\<lambda>old. reloaded old obj)"
proof -
  have t: "record_target (JObj (record_fields vid f k obj)) = Some (f, k)"
    using record_target_to_record[of vid f k obj] by (simp add: to_record_fields)
  show ?thesis unfolding to_record_fields
    by (simp add: load_record_def try_record_def t Let_def load_fields_record_fields)
qed

lemma reloaded_new_object: "reloaded new_object obj = persisted obj"
  by (simp add: reloaded_def persisted_def new_object_def)

lemma get_object_load_keys:
  assumes "distinct ks"
  shows "get_object (load_records s (map (\<lambda>fk. to_record vid (fst fk) (snd fk) (ob fk)) ks)) f k =
     (if (f, k) \<in> set ks then Some (reloaded (current_object s f k) (ob (f, k)))
      else get_object s f k)"
  using assms
proof (induction ks arbitrary: s)
  case Nil
  then show ?case by (simp add: load_records_def)
next
  case (Cons fk ks)
  obtain f0 k0 where fk: "fk = (f0, k0)" by (cases fk)
  let ?s1 = "modify_object s f0 k0 (\<lambda>old. reloaded old (ob fk))"
  have step: "load_records s (map (\<lambda>fk. to_record vid (fst fk) (snd fk) (ob fk)) (fk # ks))
      = load_records ?s1 (map (\<lambda>fk. to_record vid (fst fk) (snd fk) (ob fk)) ks)"
    by (simp add: load_records_def load_record_to_record fk)
  from Cons.prems have d: "distinct ks" and n: "fk \<notin> set ks" by simp_all
  note ih = Cons.IH[OF d, of ?s1]
  show ?case
  proof (cases "(f, k) \<in> set ks")
    case True
    with n have "(f, k) \<noteq> (f0, k0)" using fk by auto
    then have "current_object ?s1 f k = current_object s f k"
      by (auto simp: current_object_modify_object)
    then show ?thesis unfolding step ih using True by simp
  next
    case False
    show ?thesis unfolding step ih using False fk
      by (auto simp: get_object_modify_object)
  qed
qed

lemma unique_keys_load_record: "unique_keys s \<Longrightarrow> unique_keys (load_record s r)"
proof (cases "record_target r")
  case None
  assume "unique_keys s"
  then show ?thesis using None by (simp add: load_record_target_None)
next
  case (Some t)
  assume u: "unique_keys s"
  obtain f k where "t = (f, k)" by (cases t)
  with Some obtain d where
    "load_record s r = modify_object s f k (\<lambda>obj. state_of (load_fields d obj))"
    by (auto elim: load_record_target_Some)
  then show ?thesis using u by (simp add: unique_keys_modify_object)
qed

lemma unique_keys_load_records: "unique_keys s \<Longrightarrow> unique_keys (load_records s rs)"
  unfolding load_records_def
  by (induction rs arbitrary: s) (simp_all add: unique_keys_load_record)

lemma unique_keys_init: "unique_keys (init_model listing)"
  by (simp add: unique_keys_def init_model_def)

lemma unique_keys_clear_object:
  assumes "unique_keys m" shows "unique_keys (clear_object m oid)"
proof (cases "map_of (ann m) (index m)")
  case None
  then show ?thesis using assms by (simp add: clear_object_def)
next
  case (Some fr)
  then have "distinct (map fst (objects fr))" using assms unique_keys_frame by blast
  then have "distinct (map fst (objects (fr\<lparr>objects := AList.update oid new_object (objects fr)\<rparr>)))"
    by (simp add: distinct_update)
  then have "unique_keys (m\<lparr>ann := AList.update (index m)
                          (fr\<lparr>objects := AList.update oid new_object (objects fr)\<rparr>) (ann m)\<rparr>)"
    using assms by (intro unique_keys_update)
  then show ?thesis using Some assms by (simp add: clear_object_def unique_keys_def)
qed

lemma unique_keys_set_index: "unique_keys (set_index m i) = unique_keys m"
  by (simp add: set_index_def unique_keys_def)

lemma unique_keys_apply_mutation:
  "unique_keys m \<Longrightarrow> unique_keys (apply_mutation m mu)"
  by (cases mu)
    (simp_all add: add_point_def remove_point_def set_box_def set_polygon_def set_class_def
      Let_def unique_keys_modify_object unique_keys_clear_object unique_keys_set_index)

lemma unique_keys_reachable:
  "unique_keys m \<Longrightarrow> unique_keys (foldl apply_mutation m mus)"
  by (induction mus arbitrary: m) (simp_all add: unique_keys_apply_mutation)

lemma has_content_persisted: "has_content (persisted obj) = has_content obj"
  by (simp add: persisted_def has_content_def has_box_def has_points_def has_poly_def)

lemma get_object_init: "get_object (init_model listing) f k = None"
  by (simp add: get_object_def init_model_def)

lemma save_reload_get_object:
  assumes "unique_keys m"
  shows "get_object (load_records (init_model listing) (to_records m vid)) f k =
           (case get_object m f k of
              None \<Rightarrow> None
            | Some obj \<Rightarrow> if has_content obj then Some (persisted obj) else None)"
proof -
  have "get_object (load_records (init_model listing) (to_records m vid)) f k =
     (if (f, k) \<in> set (entry_keys m)
      then Some (reloaded (current_object (init_model listing) f k) (current_object m f k))
      else get_object (init_model listing) f k)"
    unfolding to_records_eq
    using get_object_load_keys[OF distinct_entry_keys[OF assms(1)],
        of "init_model listing" vid "\<lambda>fk. current_object m (fst fk) (snd fk)" f k]
    by simp
  then show ?thesis
    by (auto simp: entry_keys_iff get_object_init current_object_def reloaded_new_object
        split: option.splits)
qed

lemma save_reload_annotated:
  assumes "unique_keys m"
  shows "is_frame_annotated (load_records (init_model listing) (to_records m vid)) f
           = is_frame_annotated m f"
proof -
  have u': "unique_keys (load_records (init_model listing) (to_records m vid))"
    by (intro unique_keys_load_records unique_keys_init)
  show ?thesis
    unfolding is_frame_annotated_iff[OF u'] is_frame_annotated_iff[OF assms(1)]
      save_reload_get_object[OF assms]
    by (auto simp: has_content_persisted split: option.splits if_splits)
qed

text \<open>
  Claim C1, as the code has it. Take a store built from a new one by any sequence of user
  operations, and load its records into a new store of the same video. Every frame has the
  same annotated status in both. An object that has content comes back with its points and
  labels, its box when the box has \<open>w > 0\<close> and \<open>h > 0\<close>, its polygon when it has at least
  three vertices and its class when it is not empty (\<open>persisted\<close>); an object without
  content does not come back. So the reloaded store answers \<^verbatim>\<open>get_object\<close> as the original
  does whenever every object of the original has content and holds no other box, polygon or
  class than those.
\<close>

theorem save_reload:
  "let m = foldl apply_mutation (init_model listing) mus;
       m' = load_records (init_model listing) (to_records m vid) in
     (\<forall>f. is_frame_annotated m' f = is_frame_annotated m f) \<and>
     (\<forall>f k. get_object m' f k =
        (case get_object m f k of
           None \<Rightarrow> None
         | Some obj \<Rightarrow> if has_content obj then Some (persisted obj) else None)) \<and>
     ((\<forall>f k obj. get_object m f k = Some obj \<longrightarrow> has_content obj \<and> persisted obj = obj)
        \<longrightarrow> (\<forall>f k. get_object m' f k = get_object m f k))"
proof -
  let ?m = "foldl apply_mutation (init_model listing) mus"
  let ?m' = "load_records (init_model listing) (to_records ?m vid)"
  have u: "unique_keys ?m" by (intro unique_keys_reachable unique_keys_init)
  note g = save_reload_get_object[OF u, of listing vid]
  have a: "\<forall>f. is_frame_annotated ?m' f = is_frame_annotated ?m f"
    using save_reload_annotated[OF u] by blast
  have b: "\<forall>f k. get_object ?m' f k =
        (case get_object ?m f k of
           None \<Rightarrow> None
         | Some obj \<Rightarrow> if has_content obj then Some (persisted obj) else None)"
    using g by blast
  have c: "\<forall>f k. get_object ?m' f k = get_object ?m f k"
    if h: "\<forall>f k obj. get_object ?m f k = Some obj \<longrightarrow> has_content obj \<and> persisted obj = obj"
  proof (intro allI)
    fix f k
    show "get_object ?m' f k = get_object ?m f k"
    proof (cases "get_object ?m f k")
      case None
      then show ?thesis by (simp add: g)
    next
      case (Some obj)
      with h have "has_content obj" "persisted obj = obj" by blast+
      then show ?thesis using Some by (simp add: g)
    qed
  qed
  show ?thesis unfolding Let_def using a b c by blast
qed

theorem save_reload_witness:
  "is_frame_annotated
     (load_records (init_model five_frames)
        (to_records (foldl apply_mutation (init_model five_frames)
                       [SetIndex 2, AddPoint 1 10 20 1]) ''v'')) 2 \<and>
   get_object
     (load_records (init_model five_frames)
        (to_records (foldl apply_mutation (init_model five_frames)
                       [SetIndex 2, AddPoint 1 10 20 1]) ''v'')) 2 1
     = Some \<lparr>box = None, points = [(10, 20)], labels = [1], polygon = None, class_name = JNull\<rparr>"
proof -
  let ?m = "foldl apply_mutation (init_model five_frames) [SetIndex 2, AddPoint 1 10 20 1]"
  let ?o = "\<lparr>box = None, points = [(10, 20)], labels = [1], polygon = None, class_name = JNull\<rparr>"
  have g: "get_object ?m 2 1 = Some ?o" by code_simp
  have a: "is_frame_annotated ?m 2" by code_simp
  have c: "has_content ?o" "persisted ?o = ?o" by code_simp+
  note t = save_reload[of five_frames "[SetIndex 2, AddPoint 1 10 20 1]" "''v''", unfolded Let_def]
  from t have "is_frame_annotated (load_records (init_model five_frames) (to_records ?m ''v'')) 2
      = is_frame_annotated ?m 2" by blast
  moreover from t have "get_object (load_records (init_model five_frames) (to_records ?m ''v'')) 2 1 =
        (case get_object ?m 2 1 of
           None \<Rightarrow> None
         | Some obj \<Rightarrow> if has_content obj then Some (persisted obj) else None)" by blast
  ultimately show ?thesis using g a c by simp
qed

text \<open>
  The claim as stated fails: \<^verbatim>\<open>to_records\<close> skips an object without content, so after
  \<^verbatim>\<open>set_class\<close> alone the store has an object that the reloaded store does not have.
\<close>

theorem reload_drops_class_only_object:
  "get_object (foldl apply_mutation (init_model None) [SetClass 1 (Some ''cat'')]) 0 1
     = Some (new_object\<lparr>class_name := JStr ''cat''\<rparr>) \<and>
   to_records (foldl apply_mutation (init_model None) [SetClass 1 (Some ''cat'')]) ''v'' = [] \<and>
   get_object (load_records (init_model None)
                 (to_records (foldl apply_mutation (init_model None) [SetClass 1 (Some ''cat'')])
                    ''v'')) 0 1 = None"
  by code_simp

end
